theory Spec2Isabelle
  imports Main "HOL-Library.Sublist" "HOL-Library.Char_ord" "HOL-Library.List_Lexorder"
    "HOL-Library.Multiset"
begin

section \<open>The SRS validator \<^verbatim>\<open>validate_srs.py\<close>\<close>

text \<open>
  The validator reads the markdown files of one directory, runs six rule checks over
  them and prints a report. Text is a \<^typ>\<open>string\<close>: a list of characters, each read as
  the Unicode code point of the same number (U+0000 to U+00FF); the character classes
  of Python's \<^verbatim>\<open>re\<close> and \<^verbatim>\<open>str\<close> are written out for that range.
\<close>

subsection \<open>Characters and strings of the Python library\<close>

definition code_point :: "char \<Rightarrow> nat" where
  "code_point c = of_char c"

definition LF :: char where
  "LF = CHR 0x0A"

definition CR :: char where
  "CR = CHR 0x0D"

text \<open>\<^verbatim>\<open>\d\<close> of a \<^verbatim>\<open>str\<close> pattern: the decimal digits.\<close>

definition is_digit :: "char \<Rightarrow> bool" where
  "is_digit c = (48 \<le> code_point c \<and> code_point c \<le> 57)"

text \<open>\<^verbatim>\<open>\w\<close> of a \<^verbatim>\<open>str\<close> pattern: alphanumeric characters and the underscore.\<close>

definition is_word :: "char \<Rightarrow> bool" where
  "is_word c =
     (let n = code_point c in
      if n < 0x80
      then (48 \<le> n \<and> n \<le> 57) \<or> (65 \<le> n \<and> n \<le> 90) \<or> n = 95 \<or> (97 \<le> n \<and> n \<le> 122)
      else n \<in> set [0xAA, 0xB2, 0xB3, 0xB5, 0xB9, 0xBA, 0xBC, 0xBD, 0xBE]
           \<or> (0xC0 \<le> n \<and> n \<noteq> 0xD7 \<and> n \<noteq> 0xF7))"

text \<open>\<^verbatim>\<open>\s\<close> of a \<^verbatim>\<open>str\<close> pattern.\<close>

definition is_space :: "char \<Rightarrow> bool" where
  "is_space c = (code_point c \<in> set [9, 10, 11, 12, 13, 28, 29, 30, 31, 32, 0x85, 0xA0])"

text \<open>The line boundaries of \<^verbatim>\<open>str.splitlines\<close>.\<close>

definition is_linebreak :: "char \<Rightarrow> bool" where
  "is_linebreak c = (code_point c \<in> set [10, 11, 12, 13, 28, 29, 30, 0x85])"

text \<open>
  \<^verbatim>\<open>str.lower\<close>, one character at a time: an upper case letter becomes the letter 32
  code points above it, which for these code points sets the bit of value 32.
\<close>

definition lower_char :: "char \<Rightarrow> char" where
  "lower_char c =
     (let n = code_point c in
      if (65 \<le> n \<and> n \<le> 90) \<or> (0xC0 \<le> n \<and> n \<le> 0xDE \<and> n \<noteq> 0xD7)
      then (case c of Char b0 b1 b2 b3 b4 b5 b6 b7 \<Rightarrow> Char b0 b1 b2 b3 b4 True b6 b7)
      else c)"

definition lower :: "string \<Rightarrow> string" where
  "lower s = map lower_char s"

text \<open>\<^verbatim>\<open>s.startswith(p)\<close> and \<^verbatim>\<open>sub in s\<close>.\<close>

definition startswith :: "string \<Rightarrow> string \<Rightarrow> bool" where
  "startswith s p = prefix p s"

fun contains :: "string \<Rightarrow> string \<Rightarrow> bool" where
  "contains [] sub = (sub = [])"
| "contains (c # cs) sub = (if prefix sub (c # cs) then True else contains cs sub)"

text \<open>
  \<^verbatim>\<open>text.splitlines()\<close>: a line ends at each line boundary, \<^verbatim>\<open>\r\n\<close> counts as one
  boundary, and no empty line follows a final boundary. The flag says that the
  previous character was a carriage return.
\<close>

fun splitlines_from :: "bool \<Rightarrow> string \<Rightarrow> string \<Rightarrow> string list" where
  "splitlines_from after_cr cur [] = (if cur = [] then [] else [cur])"
| "splitlines_from after_cr cur (c # cs) =
     (if after_cr \<and> c = LF then splitlines_from False cur cs
      else if is_linebreak c then cur # splitlines_from (c = CR) [] cs
      else splitlines_from False (cur @ [c]) cs)"

definition splitlines :: "string \<Rightarrow> string list" where
  "splitlines s = splitlines_from False [] s"

text \<open>\<^verbatim>\<open>"\n".join(xs)\<close>.\<close>

fun join_lines :: "string list \<Rightarrow> string" where
  "join_lines [] = []"
| "join_lines [x] = x"
| "join_lines (x # y # ys) = x @ LF # join_lines (y # ys)"

text \<open>\<^verbatim>\<open>xs[start:stop]\<close> for indices that are not negative.\<close>

definition slice :: "'a list \<Rightarrow> nat \<Rightarrow> nat \<Rightarrow> 'a list" where
  "slice xs start stop = take (stop - start) (drop start xs)"

text \<open>The decimal form of an integer, as an f-string writes it.\<close>

fun str_nat :: "nat \<Rightarrow> string" where
  "str_nat n =
     (if n < 10 then [''0123456789'' ! n] else str_nat (n div 10) @ [''0123456789'' ! (n mod 10)])"

declare str_nat.simps [simp del]

definition str_int :: "int \<Rightarrow> string" where
  "str_int i = (if i < 0 then CHR ''-'' # str_nat (nat (- i)) else str_nat (nat i))"

subsection \<open>The regular expressions\<close>

definition head_opt :: "string \<Rightarrow> char option" where
  "head_opt s = (case s of [] \<Rightarrow> None | c # _ \<Rightarrow> Some c)"

definition is_word_opt :: "char option \<Rightarrow> bool" where
  "is_word_opt x = (case x of None \<Rightarrow> False | Some c \<Rightarrow> is_word c)"

text \<open>
  \<^verbatim>\<open>\b\<close> between the character before a position and the character at it
  (\<open>None\<close> at either end of the text): exactly one of the two is a word character.
\<close>

definition word_boundary :: "char option \<Rightarrow> char option \<Rightarrow> bool" where
  "word_boundary prev nxt = (is_word_opt prev \<noteq> is_word_opt nxt)"

definition REQ_CATEGORIES :: "string list" where
  "REQ_CATEGORIES = [''IR'', ''FR'', ''DR'', ''NFR'', ''CR'']"

text \<open>The rest of \<^verbatim>\<open>REQ_ID_PATTERN\<close> after the category: \<^verbatim>\<open>-\d{3}\b\<close>.\<close>

definition req_id_tail :: "string \<Rightarrow> bool" where
  "req_id_tail s =
     (case s of
        h # d1 # d2 # d3 # rest \<Rightarrow>
          h = CHR ''-'' \<and> is_digit d1 \<and> is_digit d2 \<and> is_digit d3
          \<and> word_boundary (Some d3) (head_opt rest)
      | _ \<Rightarrow> False)"

text \<open>
  \<^verbatim>\<open>REQ_ID_PATTERN = \b(IR|FR|DR|NFR|CR)-\d{3}\b\<close> tried at one position: \<open>prev\<close> is the
  character before the position, \<open>s\<close> the text from it. The alternatives are tried in
  order; the result is the matched text.
\<close>

definition match_req_id :: "char option \<Rightarrow> string \<Rightarrow> string option" where
  "match_req_id prev s =
     (if word_boundary prev (head_opt s)
      then (case find (\<lambda>cat. if prefix cat s then req_id_tail (drop (length cat) s) else False)
                   REQ_CATEGORIES of
              None \<Rightarrow> None
            | Some cat \<Rightarrow> Some (take (length cat + 4) s))
      else None)"

text \<open>\<^verbatim>\<open>REQ_ID_PATTERN.finditer(line)\<close>: the matched texts, left to right, not overlapping.\<close>

function finditer_req :: "char option \<Rightarrow> string \<Rightarrow> string list" where
  "finditer_req prev [] = []"
| "finditer_req prev (c # cs) =
     (case match_req_id prev (c # cs) of
        None \<Rightarrow> finditer_req (Some c) cs
      | Some m \<Rightarrow> m # finditer_req (Some (last m)) (drop (length m) (c # cs)))"
  by pat_completeness auto
termination
proof (relation "measure (\<lambda>(prev, s). length s)")
  show "wf (measure (\<lambda>(prev, s). length s))" by simp
next
  fix prev :: "char option" and c :: char and cs :: string
  show "((Some c, cs), (prev, c # cs)) \<in> measure (\<lambda>(prev, s). length s)" by simp
next
  fix prev :: "char option" and c :: char and cs :: string and m :: string
  assume "match_req_id prev (c # cs) = Some m"
  then have "\<exists>cat :: string. m = take (length cat + 4) (c # cs)"
    by (auto simp: match_req_id_def split: if_splits option.splits)
  then have "0 < length m" by auto
  then show "((Some (last m), drop (length m) (c # cs)), (prev, c # cs)) \<in> measure (\<lambda>(prev, s). length s)"
    by simp
qed

text \<open>\<^verbatim>\<open>REQ_ID_PATTERN.search(text) is not None\<close>.\<close>

fun search_req :: "char option \<Rightarrow> string \<Rightarrow> bool" where
  "search_req prev [] = False"
| "search_req prev (c # cs) =
     (if match_req_id prev (c # cs) \<noteq> None then True else search_req (Some c) cs)"

text \<open>
  A literal word of a pattern followed by \<^verbatim>\<open>\b\<close>, at the start of \<open>s\<close>: the characters
  are compared with \<open>eq\<close> (equality, or equality up to case under \<^verbatim>\<open>re.IGNORECASE\<close>);
  \<open>prev\<close> is the character before \<open>s\<close>.
\<close>

fun literal_then_boundary ::
  "(char \<Rightarrow> char \<Rightarrow> bool) \<Rightarrow> string \<Rightarrow> char option \<Rightarrow> string \<Rightarrow> bool" where
  "literal_then_boundary eq [] prev s = word_boundary prev (head_opt s)"
| "literal_then_boundary eq (p # ps) prev [] = False"
| "literal_then_boundary eq (p # ps) prev (c # cs) =
     (if eq p c then literal_then_boundary eq ps (Some c) cs else False)"

text \<open>\<^verbatim>\<open>\b(w1|w2|...)\b\<close> tried at one position.\<close>

definition match_words ::
  "(char \<Rightarrow> char \<Rightarrow> bool) \<Rightarrow> string list \<Rightarrow> char option \<Rightarrow> string \<Rightarrow> bool" where
  "match_words eq ws prev s =
     (if word_boundary prev (head_opt s)
      then list_ex (\<lambda>w. literal_then_boundary eq w prev s) ws
      else False)"

text \<open>\<^verbatim>\<open>re.search\<close> of such a pattern \<^verbatim>\<open>is not None\<close>: some position matches.\<close>

fun search_words ::
  "(char \<Rightarrow> char \<Rightarrow> bool) \<Rightarrow> string list \<Rightarrow> char option \<Rightarrow> string \<Rightarrow> bool" where
  "search_words eq ws prev [] = match_words eq ws prev []"
| "search_words eq ws prev (c # cs) =
     (if match_words eq ws prev (c # cs) then True else search_words eq ws (Some c) cs)"

definition eq_ignorecase :: "char \<Rightarrow> char \<Rightarrow> bool" where
  "eq_ignorecase p c = (lower_char p = lower_char c)"

text \<open>\<^verbatim>\<open>\|\s*0\.1\s*\|\<close> at the start of \<open>s\<close>.\<close>

definition match_version_row :: "string \<Rightarrow> bool" where
  "match_version_row s =
     (case s of
        [] \<Rightarrow> False
      | c # r \<Rightarrow>
          if c = CHR ''|''
          then (let r1 = dropWhile is_space r in
                prefix ''0.1'' r1 \<and> head_opt (dropWhile is_space (drop 3 r1)) = Some (CHR ''|''))
          else False)"

text \<open>
  \<^verbatim>\<open>re.search(r"^\|\s*0\.1\s*\|", text, flags=re.MULTILINE) is not None\<close>: \<^verbatim>\<open>^\<close> holds
  at the start of the text and after each line feed.
\<close>

fun search_version_row :: "bool \<Rightarrow> string \<Rightarrow> bool" where
  "search_version_row bol [] = False"
| "search_version_row bol (c # cs) =
     (if bol \<and> match_version_row (c # cs) then True else search_version_row (c = LF) cs)"

subsection \<open>Findings, paths and the fixed tables\<close>

record Finding =
  level :: string
  message :: string

text \<open>
  The exceptions that end a run: \<^verbatim>\<open>read_text\<close> failing on the named file (it cannot be
  opened or is not UTF-8), a failed dictionary lookup, and a query of the file system
  (\<^verbatim>\<open>exists\<close>, \<^verbatim>\<open>is_dir\<close>, \<^verbatim>\<open>iterdir\<close>, \<^verbatim>\<open>is_file\<close>) that raises, as these do on a missing
  permission; \<open>OSError\<close> does not record which of these calls raised.
\<close>

datatype error = ReadError string | KeyError string | OSError

text \<open>
  A directory entry: its \<^verbatim>\<open>name\<close>, the answer of \<^verbatim>\<open>is_file()\<close> and the text that
  \<^verbatim>\<open>read_text(encoding="utf-8")\<close> returns; each is \<open>None\<close> when the call raises.
\<close>

record path =
  name :: string
  is_file :: "bool option"
  contents :: "string option"

definition read_text :: "path \<Rightarrow> error + string" where
  "read_text p = (case contents p of None \<Rightarrow> Inl (ReadError (name p)) | Some t \<Rightarrow> Inr t)"

definition REQUIRED_SECTIONS :: "(string \<times> string) list" where
  "REQUIRED_SECTIONS =
     [(''00'', ''Introduction''),
      (''01'', ''Product perspective''),
      (''02'', ''External interfaces''),
      (''03'', ''Functional requirements''),
      (''04'', ''Data requirements''),
      (''05'', ''Non-functional requirements''),
      (''06'', ''Constraints''),
      (''07'', ''Change control'')]"

definition CATEGORY_PREFIX :: "string \<rightharpoonup> string" where
  "CATEGORY_PREFIX =
     map_of [(''IR'', ''02''), (''FR'', ''03''), (''DR'', ''04''), (''NFR'', ''05''), (''CR'', ''06'')]"

definition REQUIRED_DEFINITIONS :: "string list" where
  "REQUIRED_DEFINITIONS =
     [''SRS'', ''RTM'', ''MoSCoW'', ''IADT'', ''FR'', ''NFR'', ''DR'', ''IR'', ''CR'']"

definition REQUIRED_META_FIELDS :: "string list" where
  "REQUIRED_META_FIELDS = [''Priority:'', ''Verify:'', ''Release:'']"

definition error_finding :: "string \<Rightarrow> Finding" where
  "error_finding msg = \<lparr>level = ''error'', message = msg\<rparr>"

definition warning_finding :: "string \<Rightarrow> Finding" where
  "warning_finding msg = \<lparr>level = ''warning'', message = msg\<rparr>"

subsection \<open>The rule checks\<close>

definition validate_required_sections :: "path list \<Rightarrow> Finding list" where
  "validate_required_sections files =
     (let names = map name files in
      concat (map (\<lambda>(pre, title).
          if \<not> list_ex (\<lambda>nm. startswith nm pre) names
          then [error_finding (''Missing section '' @ pre @ '' ('' @ title @ '').'')]
          else [])
        REQUIRED_SECTIONS))"

text \<open>What the body of the loop of \<^verbatim>\<open>validate_line_limits\<close> appends for one file.\<close>

definition line_limit_findings :: "string \<Rightarrow> nat \<Rightarrow> int \<Rightarrow> Finding list" where
  "line_limit_findings nm line_count max_lines =
     (if startswith (lower nm) ''rtm'' then []
      else if int line_count > max_lines
      then [error_finding (nm @ '' has '' @ str_nat line_count @ '' lines (max ''
              @ str_int max_lines @ ''); split this section.'')]
      else [])"

text \<open>The file is read before its name is looked at, so a file that cannot be read
  stops the loop whatever its name.\<close>

fun validate_line_limits :: "path list \<Rightarrow> int \<Rightarrow> error + Finding list" where
  "validate_line_limits [] max_lines = Inr []"
| "validate_line_limits (p # ps) max_lines =
     (case read_text p of
        Inl e \<Rightarrow> Inl e
      | Inr t \<Rightarrow>
          (case validate_line_limits ps max_lines of
             Inl e \<Rightarrow> Inl e
           | Inr rest \<Rightarrow>
               Inr (line_limit_findings (name p) (length (splitlines t)) max_lines @ rest)))"

definition validate_definitions :: "path list \<Rightarrow> error + Finding list" where
  "validate_definitions files =
     (case find (\<lambda>p. startswith (name p) ''00'') files of
        None \<Rightarrow> Inr []
      | Some intro \<Rightarrow>
          (case read_text intro of
             Inl e \<Rightarrow> Inl e
           | Inr t \<Rightarrow>
               Inr (concat (map (\<lambda>trm.
                   if \<not> search_words (=) [trm] None t
                   then [error_finding (name intro
                           @ '' is missing required definition or acronym: '' @ trm @ ''.'')]
                   else [])
                 REQUIRED_DEFINITIONS))))"

definition validate_change_control :: "path list \<Rightarrow> error + Finding list" where
  "validate_change_control files =
     (case find (\<lambda>p. startswith (name p) ''07'') files of
        None \<Rightarrow> Inr []
      | Some change_file \<Rightarrow>
          (case read_text change_file of
             Inl e \<Rightarrow> Inl e
           | Inr t \<Rightarrow>
               Inr ((if \<not> contains t ''| Version | Date | Author | Changes |''
                     then [error_finding (name change_file
                             @ '' is missing the required version history table header.'')]
                     else [])
                  @ (if \<not> search_version_row True t
                     then [warning_finding (name change_file
                             @ '' does not include an initial 0.1 version row.'')]
                     else []))))"

fun rtm_headers :: "path list \<Rightarrow> error + Finding list" where
  "rtm_headers [] = Inr []"
| "rtm_headers (p # ps) =
     (case read_text p of
        Inl e \<Rightarrow> Inl e
      | Inr t \<Rightarrow>
          (case rtm_headers ps of
             Inl e \<Rightarrow> Inl e
           | Inr rest \<Rightarrow>
               Inr ((if \<not> contains t
                          ''| Req ID | Requirement | Source/Need | Design Ref | Test Case | Status |''
                     then [warning_finding (name p @ '' is missing the recommended RTM header row.'')]
                     else [])
                  @ rest)))"

definition validate_rtm :: "path list \<Rightarrow> error + Finding list" where
  "validate_rtm files = rtm_headers (filter (\<lambda>p. startswith (lower (name p)) ''rtm'') files)"

subsection \<open>The requirements check\<close>

text \<open>\<^verbatim>\<open>seen_ids\<close>: the name of the file and the line of the first occurrence of each
  identifier.\<close>

type_synonym seen_ids = "string \<rightharpoonup> string \<times> nat"

text \<open>
  \<^verbatim>\<open>id_lines\<close>: the pair \<^verbatim>\<open>(line_no, req)\<close> of every match, in the order in which the
  two nested loops over \<^verbatim>\<open>enumerate(lines, start=1)\<close> and \<^verbatim>\<open>finditer(line)\<close> visit them.
\<close>

definition id_lines :: "string list \<Rightarrow> (nat \<times> string) list" where
  "id_lines lines =
     concat (map (\<lambda>(line_no, line). map (Pair line_no) (finditer_req None line))
               (enumerate 1 lines))"

definition duplicate_finding :: "string \<Rightarrow> string \<Rightarrow> nat \<Rightarrow> string \<Rightarrow> nat \<Rightarrow> Finding" where
  "duplicate_finding req nm line_no original_name original_line =
     error_finding (''Duplicate requirement ID '' @ req @ '' in '' @ nm @ '':'' @ str_nat line_no
       @ ''; already defined at '' @ original_name @ '':'' @ str_nat original_line @ ''.'')"

definition prefix_finding :: "string \<Rightarrow> string \<Rightarrow> string \<Rightarrow> string \<Rightarrow> Finding" where
  "prefix_finding req nm expected_prefix category =
     warning_finding (req @ '' appears in '' @ nm @ ''; expected section prefix ''
       @ expected_prefix @ '' for '' @ category @ '' requirements.'')"

text \<open>
  The body of the inner loop for one match \<^verbatim>\<open>req\<close> on line \<^verbatim>\<open>line_no\<close> of the file
  named \<open>nm\<close>: the duplicate test against \<^verbatim>\<open>seen_ids\<close>, then the section prefix test.
  \<^verbatim>\<open>req.split("-", maxsplit=1)[0]\<close> is the text before the first hyphen.
\<close>

definition check_occurrence ::
  "string \<Rightarrow> nat \<Rightarrow> string \<Rightarrow> seen_ids \<Rightarrow> error + Finding list \<times> seen_ids" where
  "check_occurrence nm line_no req seen =
     (let (dup, seen') =
            (case seen req of
               Some (original_name, original_line) \<Rightarrow>
                 ([duplicate_finding req nm line_no original_name original_line], seen)
             | None \<Rightarrow> ([], seen(req \<mapsto> (nm, line_no))));
          category = takeWhile (\<lambda>c. c \<noteq> CHR ''-'') req
      in case CATEGORY_PREFIX category of
           None \<Rightarrow> Inl (KeyError category)
         | Some expected_prefix \<Rightarrow>
             Inr (dup @ (if \<not> startswith nm expected_prefix
                         then [prefix_finding req nm expected_prefix category]
                         else []),
                  seen'))"

fun scan_ids ::
  "string \<Rightarrow> (nat \<times> string) list \<Rightarrow> seen_ids \<Rightarrow> error + Finding list \<times> seen_ids" where
  "scan_ids nm [] seen = Inr ([], seen)"
| "scan_ids nm ((line_no, req) # rest) seen =
     (case check_occurrence nm line_no req seen of
        Inl e \<Rightarrow> Inl e
      | Inr (fs, seen') \<Rightarrow>
          (case scan_ids nm rest seen' of
             Inl e \<Rightarrow> Inl e
           | Inr (fs', seen'') \<Rightarrow> Inr (fs @ fs', seen'')))"

text \<open>The block of the occurrence at \<open>index\<close> of \<^verbatim>\<open>id_lines\<close>: \<^verbatim>\<open>"\n".join(lines[start:end])\<close>.\<close>

definition block_of :: "string list \<Rightarrow> (nat \<times> string) list \<Rightarrow> nat \<Rightarrow> string" where
  "block_of lines ids index =
     (let start = fst (ids ! index) - 1;
          stop = (if index + 1 < length ids then fst (ids ! (index + 1)) - 1 else length lines)
      in join_lines (slice lines start stop))"

definition modality_finding :: "string \<Rightarrow> string \<Rightarrow> nat \<Rightarrow> Finding" where
  "modality_finding req_id nm line_no =
     error_finding (req_id @ '' in '' @ nm @ '':'' @ str_nat line_no
       @ '' does not contain shall/should/may.'')"

definition meta_finding :: "string \<Rightarrow> string \<Rightarrow> nat \<Rightarrow> string \<Rightarrow> Finding" where
  "meta_finding req_id nm line_no fld =
     warning_finding (req_id @ '' in '' @ nm @ '':'' @ str_nat line_no
       @ '' is missing '' @ [CHR 0x27] @ fld @ [CHR 0x27] @ ''.'')"

text \<open>The two tests on one block: the modality words, then each metadata field.\<close>

definition block_findings :: "string \<Rightarrow> string \<Rightarrow> nat \<Rightarrow> string \<Rightarrow> Finding list" where
  "block_findings req_id nm line_no block =
     (if \<not> search_words eq_ignorecase [''shall'', ''should'', ''may''] None block
      then [modality_finding req_id nm line_no] else [])
     @ concat (map (\<lambda>fld. if \<not> contains block fld then [meta_finding req_id nm line_no fld] else [])
                 REQUIRED_META_FIELDS)"

text \<open>The second loop over a file: \<^verbatim>\<open>for index, (line_no, req_id) in enumerate(id_lines)\<close>.\<close>

definition check_blocks :: "string \<Rightarrow> string list \<Rightarrow> (nat \<times> string) list \<Rightarrow> Finding list" where
  "check_blocks nm lines ids =
     concat (map (\<lambda>index. block_findings (snd (ids ! index)) nm (fst (ids ! index))
                            (block_of lines ids index))
               [0..<length ids])"

text \<open>One round of the loop over the files.\<close>

definition requirements_of_file :: "path \<Rightarrow> seen_ids \<Rightarrow> error + Finding list \<times> seen_ids" where
  "requirements_of_file p seen =
     (case read_text p of
        Inl e \<Rightarrow> Inl e
      | Inr t \<Rightarrow>
          (let lines = splitlines t; ids = id_lines lines in
           case scan_ids (name p) ids seen of
             Inl e \<Rightarrow> Inl e
           | Inr (fs, seen') \<Rightarrow> Inr (fs @ check_blocks (name p) lines ids, seen')))"

fun requirements_of_files :: "path list \<Rightarrow> seen_ids \<Rightarrow> error + Finding list" where
  "requirements_of_files [] seen = Inr []"
| "requirements_of_files (p # ps) seen =
     (case requirements_of_file p seen of
        Inl e \<Rightarrow> Inl e
      | Inr (fs, seen') \<Rightarrow>
          (case requirements_of_files ps seen' of
             Inl e \<Rightarrow> Inl e
           | Inr rest \<Rightarrow> Inr (fs @ rest)))"

text \<open>\<^verbatim>\<open>any(REQ_ID_PATTERN.search(p.read_text(...)) for p in section_files)\<close>: the files
  are read in turn until one has a match.\<close>

fun any_req_id :: "path list \<Rightarrow> error + bool" where
  "any_req_id [] = Inr False"
| "any_req_id (p # ps) =
     (case read_text p of
        Inl e \<Rightarrow> Inl e
      | Inr t \<Rightarrow> if search_req None t then Inr True else any_req_id ps)"

fun category_coverage :: "path list \<Rightarrow> string list \<Rightarrow> error + Finding list" where
  "category_coverage files [] = Inr []"
| "category_coverage files (pre # pres) =
     (let section_files = filter (\<lambda>p. startswith (name p) pre) files in
      if section_files = [] then category_coverage files pres
      else (case any_req_id section_files of
              Inl e \<Rightarrow> Inl e
            | Inr found \<Rightarrow>
                (case category_coverage files pres of
                   Inl e \<Rightarrow> Inl e
                 | Inr rest \<Rightarrow>
                     Inr ((if \<not> found
                           then [warning_finding (''Section '' @ pre
                                   @ '' has no requirement IDs detected.'')]
                           else [])
                        @ rest))))"

definition validate_requirements :: "path list \<Rightarrow> error + Finding list" where
  "validate_requirements files =
     (case requirements_of_files files Map.empty of
        Inl e \<Rightarrow> Inl e
      | Inr fs \<Rightarrow>
          (case category_coverage files [''02'', ''03'', ''04'', ''05'', ''06''] of
             Inl e \<Rightarrow> Inl e
           | Inr cs \<Rightarrow> Inr (fs @ cs)))"

subsection \<open>Loading the files and the report\<close>

text \<open>
  \<^verbatim>\<open>path.suffix\<close>: the name from its last dot on, when that dot is neither the first nor
  the last character.
\<close>

definition path_suffix :: "string \<Rightarrow> string" where
  "path_suffix nm =
     (case filter (\<lambda>i. nm ! i = CHR ''.'') (rev [0..<length nm]) of
        [] \<Rightarrow> []
      | i # _ \<Rightarrow> if 0 < i \<and> i + 1 < length nm then drop i nm else [])"

text \<open>
  The directory given on the command line: its printed form \<^verbatim>\<open>str(spec_dir)\<close>, the
  answers of \<^verbatim>\<open>exists()\<close> and \<^verbatim>\<open>is_dir()\<close>, and the entries \<^verbatim>\<open>iterdir()\<close> yields, in the
  order in which it yields them; each is \<open>None\<close> when the call raises.
\<close>

record spec_dir =
  dir_str :: string
  dir_exists :: "bool option"
  dir_is_dir :: "bool option"
  iterdir :: "path list option"

text \<open>
  The generator inside \<^verbatim>\<open>sorted(...)\<close>: \<^verbatim>\<open>is_file()\<close> is asked of every entry, in the order
  of the listing, before its suffix is looked at.
\<close>

fun select_markdown :: "path list \<Rightarrow> error + path list" where
  "select_markdown [] = Inr []"
| "select_markdown (p # ps) =
     (case is_file p of
        None \<Rightarrow> Inl OSError
      | Some b \<Rightarrow>
          (case select_markdown ps of
             Inl e \<Rightarrow> Inl e
           | Inr rest \<Rightarrow>
               Inr (if b \<and> lower (path_suffix (name p)) = ''.md'' then p # rest else rest)))"

text \<open>Paths of one directory are ordered by their names, compared by code points.\<close>

definition load_markdown_files :: "spec_dir \<Rightarrow> error + path list" where
  "load_markdown_files d =
     (case iterdir d of
        None \<Rightarrow> Inl OSError
      | Some entries \<Rightarrow>
          (case select_markdown entries of
             Inl e \<Rightarrow> Inl e
           | Inr selected \<Rightarrow> Inr (sort_key name selected)))"

text \<open>The six \<^verbatim>\<open>findings.extend(...)\<close> of \<^verbatim>\<open>main\<close>, in their order.\<close>

definition collect_findings :: "path list \<Rightarrow> int \<Rightarrow> error + Finding list" where
  "collect_findings files max_lines =
     (let f1 = validate_required_sections files in
      case validate_line_limits files max_lines of Inl e \<Rightarrow> Inl e | Inr f2 \<Rightarrow>
     (case validate_definitions files of Inl e \<Rightarrow> Inl e | Inr f3 \<Rightarrow>
     (case validate_change_control files of Inl e \<Rightarrow> Inl e | Inr f4 \<Rightarrow>
     (case validate_rtm files of Inl e \<Rightarrow> Inl e | Inr f5 \<Rightarrow>
     (case validate_requirements files of Inl e \<Rightarrow> Inl e | Inr f6 \<Rightarrow>
        Inr (f1 @ f2 @ f3 @ f4 @ f5 @ f6))))))"

text \<open>
  \<^verbatim>\<open>main\<close>, after \<^verbatim>\<open>parse_args\<close>: the lines printed, one for each \<^verbatim>\<open>print\<close>, and the
  status returned; or the exception that ends the run.
\<close>

definition main :: "spec_dir \<Rightarrow> int \<Rightarrow> error + string list \<times> int" where
  "main d max_lines =
     (case dir_exists d of
        None \<Rightarrow> Inl OSError
      | Some ex \<Rightarrow>
          if \<not> ex then Inr ([''ERROR: Directory does not exist: '' @ dir_str d], 1)
          else
            (case dir_is_dir d of
               None \<Rightarrow> Inl OSError
             | Some isd \<Rightarrow>
                 if \<not> isd then Inr ([''ERROR: Not a directory: '' @ dir_str d], 1)
                 else
                   (case load_markdown_files d of
                      Inl e \<Rightarrow> Inl e
                    | Inr files \<Rightarrow>
                        if files = []
                        then Inr ([''ERROR: No markdown files found in '' @ dir_str d], 1)
                        else
                          (case collect_findings files max_lines of
                             Inl e \<Rightarrow> Inl e
                           | Inr findings \<Rightarrow>
                               (let errors = filter (\<lambda>f. level f = ''error'') findings;
                                    warnings = filter (\<lambda>f. level f = ''warning'') findings
                                in if errors \<noteq> []
                                   then Inr ([''SRS validation failed.'']
                                             @ map (\<lambda>f. ''ERROR: '' @ message f) errors
                                             @ map (\<lambda>f. ''WARN: '' @ message f) warnings,
                                             1)
                                   else Inr ([''SRS validation passed.'']
                                             @ map (\<lambda>f. ''WARN: '' @ message f) warnings
                                             @ [''Checked '' @ str_nat (length files)
                                                  @ '' markdown files in '' @ dir_str d @ ''.''],
                                             0))))))"

text \<open>
  The end of the script, \<^verbatim>\<open>sys.exit(main())\<close>: the process ends with the status that
  \<^verbatim>\<open>main\<close> returns; an exception that \<^verbatim>\<open>main\<close> lets through ends the interpreter with
  status 1, after the traceback.
\<close>

definition exit_status :: "error + string list \<times> int \<Rightarrow> int" where
  "exit_status r = (case r of Inl e \<Rightarrow> 1 | Inr (out, status) \<Rightarrow> status)"

subsection \<open>Whole words, in the words of the specification\<close>

text \<open>
  A word occurs as a whole word in a text when the text has a part that spells it,
  with no word character right before that part and none right after it. The letters
  are compared with \<open>same\<close>: equality, or \<open>same_letter\<close> when case is ignored, where a text
  character is the same as a letter of the pattern when it is that letter or its capital.
\<close>

definition occurs_as_whole_word :: "(char \<Rightarrow> char \<Rightarrow> bool) \<Rightarrow> string \<Rightarrow> string \<Rightarrow> bool" where
  "occurs_as_whole_word same w txt =
     (\<exists>pre mid post. txt = pre @ mid @ post \<and> list_all2 same w mid
        \<and> (pre = [] \<or> \<not> is_word (last pre)) \<and> (post = [] \<or> \<not> is_word (hd post)))"

definition capital_of :: "char \<Rightarrow> char" where
  "capital_of p =
     (case map_of (zip ''abcdefghijklmnopqrstuvwxyz'' ''ABCDEFGHIJKLMNOPQRSTUVWXYZ'') p of
        None \<Rightarrow> p
      | Some u \<Rightarrow> u)"

definition same_letter :: "char \<Rightarrow> char \<Rightarrow> bool" where
  "same_letter p c = (c = p \<or> c = capital_of p)"

subsection \<open>The occurrences of identifiers\<close>

text \<open>
  The matches that the scan of \<^verbatim>\<open>validate_requirements\<close> visits, in its order (file by
  file, line by line, left to right): the name of the file, the line number and the
  matched identifier. A file that cannot be read has none.
\<close>

definition occurrences :: "path list \<Rightarrow> (string \<times> nat \<times> string) list" where
  "occurrences files =
     concat (map (\<lambda>p. case contents p of
                         None \<Rightarrow> []
                       | Some t \<Rightarrow> map (\<lambda>(line_no, req). (name p, line_no, req))
                                    (id_lines (splitlines t)))
               files)"

text \<open>The shape of every text that \<^verbatim>\<open>REQ_ID_PATTERN\<close> matches: a category, a hyphen and
  three more characters.\<close>

definition req_id_form :: "string \<Rightarrow> bool" where
  "req_id_form req = (\<exists>cat \<in> set REQ_CATEGORIES. \<exists>d1 d2 d3. req = cat @ [CHR ''-'', d1, d2, d3])"

text \<open>The findings that report a duplicate of the identifier \<open>req\<close>, told by their text.\<close>

definition is_duplicate_error :: "string \<Rightarrow> Finding \<Rightarrow> bool" where
  "is_duplicate_error req f =
     (level f = ''error'' \<and> prefix (''Duplicate requirement ID '' @ req @ '' in '') (message f))"

subsection \<open>Example directories\<close>

text \<open>
  A directory with the eight sections, where the run passes with warnings only, as
  \<^verbatim>\<open>iterdir\<close> may yield it (in any order, with an entry that is not markdown); the same
  files in sorted order; a directory with one unreadable file; and a directory with the
  eight sections of which one file cannot be read.
\<close>

abbreviation demo_files :: "path list" where
  "demo_files \<equiv>
     [\<lparr>name = ''00-intro.md'', is_file = Some True,
         contents = Some ''SRS RTM MoSCoW IADT FR NFR DR IR CR''\<rparr>,
      \<lparr>name = ''01-product.md'', is_file = Some True, contents = Some []\<rparr>,
      \<lparr>name = ''02-interfaces.md'', is_file = Some True, contents = Some []\<rparr>,
      \<lparr>name = ''03-functional.md'', is_file = Some True, contents = Some []\<rparr>,
      \<lparr>name = ''04-data.md'', is_file = Some True, contents = Some []\<rparr>,
      \<lparr>name = ''05-quality.md'', is_file = Some True, contents = Some []\<rparr>,
      \<lparr>name = ''06-constraints.md'', is_file = Some True, contents = Some []\<rparr>,
      \<lparr>name = ''07-changes.md'', is_file = Some True,
         contents = Some (''| Version | Date | Author | Changes |'' @ [LF] @ ''| 0.1 |'')\<rparr>]"

abbreviation demo_dir :: spec_dir where
  "demo_dir \<equiv>
     \<lparr>dir_str = ''specs/demo'', dir_exists = Some True, dir_is_dir = Some True,
      iterdir =
        Some
        [\<lparr>name = ''07-changes.md'', is_file = Some True,
            contents = Some (''| Version | Date | Author | Changes |'' @ [LF] @ ''| 0.1 |'')\<rparr>,
         \<lparr>name = ''03-functional.md'', is_file = Some True, contents = Some []\<rparr>,
         \<lparr>name = ''notes.txt'', is_file = Some True, contents = Some ''FR-001''\<rparr>,
         \<lparr>name = ''00-intro.md'', is_file = Some True,
            contents = Some ''SRS RTM MoSCoW IADT FR NFR DR IR CR''\<rparr>,
         \<lparr>name = ''01-product.md'', is_file = Some True, contents = Some []\<rparr>,
         \<lparr>name = ''06-constraints.md'', is_file = Some True, contents = Some []\<rparr>,
         \<lparr>name = ''02-interfaces.md'', is_file = Some True, contents = Some []\<rparr>,
         \<lparr>name = ''05-quality.md'', is_file = Some True, contents = Some []\<rparr>,
         \<lparr>name = ''04-data.md'', is_file = Some True, contents = Some []\<rparr>]\<rparr>"

abbreviation broken_dir :: spec_dir where
  "broken_dir \<equiv>
     \<lparr>dir_str = ''specs/broken'', dir_exists = Some True, dir_is_dir = Some True,
      iterdir =
        Some
        [\<lparr>name = ''01-product.md'', is_file = Some True, contents = None\<rparr>,
         \<lparr>name = ''notes.txt'', is_file = Some True, contents = Some ''x''\<rparr>,
         \<lparr>name = ''00-intro.md'', is_file = Some True, contents = Some ''SRS''\<rparr>]\<rparr>"

abbreviation unread_files :: "path list" where
  "unread_files \<equiv>
     [\<lparr>name = ''00-intro.md'', is_file = Some True, contents = Some []\<rparr>,
      \<lparr>name = ''01-product.md'', is_file = Some True, contents = None\<rparr>,
      \<lparr>name = ''02-interfaces.md'', is_file = Some True, contents = Some []\<rparr>,
      \<lparr>name = ''03-functional.md'', is_file = Some True, contents = Some []\<rparr>,
      \<lparr>name = ''04-data.md'', is_file = Some True, contents = Some []\<rparr>,
      \<lparr>name = ''05-quality.md'', is_file = Some True, contents = Some []\<rparr>,
      \<lparr>name = ''06-constraints.md'', is_file = Some True, contents = Some []\<rparr>,
      \<lparr>name = ''07-changes.md'', is_file = Some True, contents = Some []\<rparr>]"

abbreviation unread_dir :: spec_dir where
  "unread_dir \<equiv>
     \<lparr>dir_str = ''specs/unread'', dir_exists = Some True, dir_is_dir = Some True,
      iterdir = Some unread_files\<rparr>"

section \<open>Properties\<close>

subsection \<open>Evaluation of the library functions on literals\<close>

lemmas char_class_eval = code_point_def is_digit_def is_word_def is_space_def is_linebreak_def
  lower_char_def lower_def LF_def CR_def

lemmas regex_eval = head_opt_def is_word_opt_def word_boundary_def REQ_CATEGORIES_def
  req_id_tail_def match_req_id_def match_words_def eq_ignorecase_def match_version_row_def

subsection \<open>The searches find whole words\<close>

lemma capital_of_letters:
  "capital_of (CHR ''s'') = CHR ''S''" "capital_of (CHR ''h'') = CHR ''H''"
  "capital_of (CHR ''a'') = CHR ''A''" "capital_of (CHR ''l'') = CHR ''L''"
  "capital_of (CHR ''o'') = CHR ''O''" "capital_of (CHR ''u'') = CHR ''U''"
  "capital_of (CHR ''d'') = CHR ''D''" "capital_of (CHR ''m'') = CHR ''M''"
  "capital_of (CHR ''y'') = CHR ''Y''"
  by (simp_all add: capital_of_def)

lemma modality_letters:
  "p \<in> set ''shaloudmy'' \<Longrightarrow>
   p = CHR ''s'' \<or> p = CHR ''h'' \<or> p = CHR ''a'' \<or> p = CHR ''l'' \<or> p = CHR ''o''
   \<or> p = CHR ''u'' \<or> p = CHR ''d'' \<or> p = CHR ''m'' \<or> p = CHR ''y''"
  by simp

lemma set_bit_letter:
  assumes "p \<in> set ''shaloudmy''" and "p = Char b0 b1 b2 b3 b4 True b6 b7"
  shows "Char b0 b1 b2 b3 b4 b5 b6 b7 = p \<or> Char b0 b1 b2 b3 b4 b5 b6 b7 = capital_of p"
  using modality_letters [OF assms(1)] assms(2)
  by (elim disjE) (cases b5; simp add: capital_of_letters)+

lemma lower_char_cases:
  "lower_char c = c
   \<or> (\<exists>b0 b1 b2 b3 b4 b5 b6 b7.
         c = Char b0 b1 b2 b3 b4 b5 b6 b7 \<and> lower_char c = Char b0 b1 b2 b3 b4 True b6 b7)"
  by (cases c) (simp add: lower_char_def Let_def)

lemma lower_char_fixes:
  assumes "p \<in> set ''shaloudmy''"
  shows "lower_char p = p \<and> lower_char (capital_of p) = p"
  using modality_letters [OF assms]
  by (elim disjE) (simp_all add: capital_of_letters lower_char_def code_point_def)

lemma is_word_letters:
  assumes "p \<in> set ''shaloudmy''"
  shows "is_word p \<and> is_word (capital_of p)"
  using modality_letters [OF assms]
  by (elim disjE) (simp_all add: capital_of_letters is_word_def code_point_def)

lemma lower_char_letter:
  assumes "p \<in> set ''shaloudmy''" and "lower_char c = p"
  shows "c = p \<or> c = capital_of p"
proof -
  from lower_char_cases [of c] show ?thesis
  proof
    assume "lower_char c = c"
    with assms(2) show ?thesis by simp
  next
    assume "\<exists>b0 b1 b2 b3 b4 b5 b6 b7.
         c = Char b0 b1 b2 b3 b4 b5 b6 b7 \<and> lower_char c = Char b0 b1 b2 b3 b4 True b6 b7"
    then obtain b0 b1 b2 b3 b4 b5 b6 b7 where c: "c = Char b0 b1 b2 b3 b4 b5 b6 b7"
      and l: "lower_char c = Char b0 b1 b2 b3 b4 True b6 b7" by blast
    from l assms(2) have "p = Char b0 b1 b2 b3 b4 True b6 b7" by simp
    from set_bit_letter [OF assms(1) this, of b5] show ?thesis unfolding c .
  qed
qed

lemma eq_ignorecase_same_letter:
  assumes "p \<in> set ''shaloudmy''"
  shows "eq_ignorecase p c = same_letter p c"
proof
  assume "eq_ignorecase p c"
  with lower_char_fixes [OF assms] have "lower_char c = p" by (simp add: eq_ignorecase_def)
  from lower_char_letter [OF assms this] show "same_letter p c" by (simp add: same_letter_def)
next
  assume "same_letter p c"
  then have "c = p \<or> c = capital_of p" by (simp add: same_letter_def)
  with lower_char_fixes [OF assms] show "eq_ignorecase p c"
    unfolding eq_ignorecase_def by (elim disjE) simp_all
qed

lemma same_letter_is_word:
  assumes "p \<in> set ''shaloudmy''" and "same_letter p c"
  shows "is_word c"
proof -
  from assms(2) have "c = p \<or> c = capital_of p" by (simp add: same_letter_def)
  with is_word_letters [OF assms(1)] show ?thesis by (elim disjE) simp_all
qed

lemma literal_then_boundary_iff:
  "literal_then_boundary eq w prev s \<longleftrightarrow>
     (\<exists>mid post. s = mid @ post \<and> list_all2 eq w mid
        \<and> word_boundary (if mid = [] then prev else Some (last mid)) (head_opt post))"
proof (induction w arbitrary: prev s)
  case Nil
  show ?case by simp
next
  case (Cons p ps)
  show ?case
  proof (cases s)
    case Nil
    then show ?thesis by (simp add: list_all2_Cons1)
  next
    case (Cons c cs)
    have "literal_then_boundary eq (p # ps) prev (c # cs)
          \<longleftrightarrow> eq p c \<and> literal_then_boundary eq ps (Some c) cs" by simp
    also have "\<dots> \<longleftrightarrow> eq p c \<and> (\<exists>mid post. cs = mid @ post \<and> list_all2 eq ps mid
        \<and> word_boundary (if mid = [] then Some c else Some (last mid)) (head_opt post))"
      by (simp only: Cons.IH)
    also have "\<dots> \<longleftrightarrow> (\<exists>mid post. c # cs = mid @ post \<and> list_all2 eq (p # ps) mid
        \<and> word_boundary (if mid = [] then prev else Some (last mid)) (head_opt post))"
      (is "?L \<longleftrightarrow> ?R")
    proof
      assume ?L
      then obtain mid post where e: "eq p c" and s: "cs = mid @ post" and a: "list_all2 eq ps mid"
        and b: "word_boundary (if mid = [] then Some c else Some (last mid)) (head_opt post)"
        by blast
      have "c # cs = (c # mid) @ post" using s by simp
      moreover have "list_all2 eq (p # ps) (c # mid)" using e a by simp
      moreover have "word_boundary (if c # mid = [] then prev else Some (last (c # mid)))
                       (head_opt post)"
        using b by (cases "mid = []") simp_all
      ultimately show ?R by blast
    next
      assume ?R
      then obtain mid post where s: "c # cs = mid @ post" and a: "list_all2 eq (p # ps) mid"
        and b: "word_boundary (if mid = [] then prev else Some (last mid)) (head_opt post)"
        by blast
      from a obtain c' mid' where m: "mid = c' # mid'" and e: "eq p c'"
        and a': "list_all2 eq ps mid'"
        by (auto simp: list_all2_Cons1)
      from s m have c: "c' = c" and s': "cs = mid' @ post" by simp_all
      from b m c have "word_boundary (if mid' = [] then Some c else Some (last mid'))
                         (head_opt post)"
        by (cases "mid' = []") simp_all
      with e c s' a' show ?L by blast
    qed
    finally show ?thesis using Cons by simp
  qed
qed

lemma matched_word_chars:
  assumes "w \<noteq> []" and "\<forall>p \<in> set w. \<forall>c. eq p c \<longrightarrow> is_word c" and "list_all2 eq w mid"
  shows "mid \<noteq> [] \<and> is_word (hd mid) \<and> is_word (last mid)"
proof -
  from assms(3) have l: "length mid = length w" by (simp add: list_all2_lengthD)
  with assms(1) have n: "mid \<noteq> []" by auto
  have "is_word c" if "c \<in> set mid" for c
  proof -
    from that obtain i where i: "i < length mid" and c: "mid ! i = c"
      by (auto simp: in_set_conv_nth)
    from assms(3) i l have "eq (w ! i) (mid ! i)" by (simp add: list_all2_nthD2)
    moreover from i l have "w ! i \<in> set w" by simp
    ultimately show ?thesis using assms(2) c by blast
  qed
  with n show ?thesis by simp
qed

lemma match_words_iff:
  assumes "\<forall>w \<in> set ws. w \<noteq> [] \<and> (\<forall>p \<in> set w. \<forall>c. eq p c \<longrightarrow> is_word c)"
  shows "match_words eq ws prev s \<longleftrightarrow>
     (\<exists>w \<in> set ws. \<exists>mid post. s = mid @ post \<and> list_all2 eq w mid
        \<and> \<not> is_word_opt prev \<and> (post = [] \<or> \<not> is_word (hd post)))"
    (is "?L \<longleftrightarrow> ?R")
proof
  assume ?L
  then have b: "word_boundary prev (head_opt s)"
    and "\<exists>w \<in> set ws. literal_then_boundary eq w prev s"
    by (auto simp: match_words_def list_ex_iff split: if_splits)
  then obtain w mid post where w: "w \<in> set ws" and s: "s = mid @ post"
    and a: "list_all2 eq w mid"
    and e: "word_boundary (if mid = [] then prev else Some (last mid)) (head_opt post)"
    by (auto simp: literal_then_boundary_iff)
  from assms w have "w \<noteq> []" and "\<forall>p \<in> set w. \<forall>c. eq p c \<longrightarrow> is_word c" by auto
  from matched_word_chars [OF this a] have n: "mid \<noteq> []" and h: "is_word (hd mid)"
    and l: "is_word (last mid)" by simp_all
  from n s have "head_opt s = Some (hd mid)" by (cases mid) (simp_all add: head_opt_def)
  with b h have 1: "\<not> is_word_opt prev" by (simp add: word_boundary_def is_word_opt_def)
  from e n l have 2: "post = [] \<or> \<not> is_word (hd post)"
    by (cases post) (simp_all add: word_boundary_def is_word_opt_def head_opt_def)
  from w s a 1 2 show ?R by blast
next
  assume ?R
  then obtain w mid post where w: "w \<in> set ws" and s: "s = mid @ post"
    and a: "list_all2 eq w mid" and 1: "\<not> is_word_opt prev"
    and 2: "post = [] \<or> \<not> is_word (hd post)"
    by blast
  from assms w have "w \<noteq> []" and "\<forall>p \<in> set w. \<forall>c. eq p c \<longrightarrow> is_word c" by auto
  from matched_word_chars [OF this a] have n: "mid \<noteq> []" and h: "is_word (hd mid)"
    and l: "is_word (last mid)" by simp_all
  from n s have "head_opt s = Some (hd mid)" by (cases mid) (simp_all add: head_opt_def)
  with 1 h have b: "word_boundary prev (head_opt s)"
    by (simp add: word_boundary_def is_word_opt_def)
  from 2 n l have "word_boundary (if mid = [] then prev else Some (last mid)) (head_opt post)"
    by (cases post) (auto simp: word_boundary_def is_word_opt_def head_opt_def)
  with s a have "literal_then_boundary eq w prev s"
    unfolding literal_then_boundary_iff by blast
  with w b show ?L by (auto simp: match_words_def list_ex_iff)
qed

lemma search_words_iff:
  assumes "\<forall>w \<in> set ws. w \<noteq> [] \<and> (\<forall>p \<in> set w. \<forall>c. eq p c \<longrightarrow> is_word c)"
  shows "search_words eq ws prev s \<longleftrightarrow>
     (\<exists>w \<in> set ws. \<exists>pre mid post. s = pre @ mid @ post \<and> list_all2 eq w mid
        \<and> \<not> is_word_opt (if pre = [] then prev else Some (last pre))
        \<and> (post = [] \<or> \<not> is_word (hd post)))"
proof (induction s arbitrary: prev)
  case Nil
  have "\<not> match_words eq ws prev []"
    unfolding match_words_iff [OF assms] using assms by fastforce
  moreover have "\<not> (\<exists>w \<in> set ws. \<exists>pre mid post. [] = pre @ mid @ post \<and> list_all2 eq w mid
        \<and> \<not> is_word_opt (if pre = [] then prev else Some (last pre))
        \<and> (post = [] \<or> \<not> is_word (hd post)))"
    using assms by fastforce
  ultimately show ?case by simp
next
  case (Cons c cs)
  have "search_words eq ws prev (c # cs)
        \<longleftrightarrow> match_words eq ws prev (c # cs) \<or> search_words eq ws (Some c) cs"
    by simp
  also have "\<dots> \<longleftrightarrow>
     (\<exists>w \<in> set ws. \<exists>mid post. c # cs = mid @ post \<and> list_all2 eq w mid
        \<and> \<not> is_word_opt prev \<and> (post = [] \<or> \<not> is_word (hd post)))
     \<or> (\<exists>w \<in> set ws. \<exists>pre mid post. cs = pre @ mid @ post \<and> list_all2 eq w mid
        \<and> \<not> is_word_opt (if pre = [] then Some c else Some (last pre))
        \<and> (post = [] \<or> \<not> is_word (hd post)))"
    by (simp only: match_words_iff [OF assms] Cons.IH)
  also have "\<dots> \<longleftrightarrow>
     (\<exists>w \<in> set ws. \<exists>pre mid post. c # cs = pre @ mid @ post \<and> list_all2 eq w mid
        \<and> \<not> is_word_opt (if pre = [] then prev else Some (last pre))
        \<and> (post = [] \<or> \<not> is_word (hd post)))"
    (is "?A \<or> ?B \<longleftrightarrow> ?R")
  proof
    assume "?A \<or> ?B"
    then show ?R
    proof
      assume ?A
      then obtain w mid post where "w \<in> set ws" and "c # cs = [] @ mid @ post"
        and "list_all2 eq w mid"
        and "\<not> is_word_opt (if ([]::string) = [] then prev else Some (last []))"
        and "post = [] \<or> \<not> is_word (hd post)"
        by auto
      then show ?R by blast
    next
      assume ?B
      then obtain w pre mid post where w: "w \<in> set ws" and s: "cs = pre @ mid @ post"
        and a: "list_all2 eq w mid"
        and p: "\<not> is_word_opt (if pre = [] then Some c else Some (last pre))"
        and q: "post = [] \<or> \<not> is_word (hd post)"
        by blast
      from s have "c # cs = (c # pre) @ mid @ post" by simp
      moreover from p have "\<not> is_word_opt (if c # pre = [] then prev else Some (last (c # pre)))"
        by (cases "pre = []") simp_all
      ultimately show ?R using w a q by blast
    qed
  next
    assume ?R
    then obtain w pre mid post where w: "w \<in> set ws" and s: "c # cs = pre @ mid @ post"
      and a: "list_all2 eq w mid"
      and p: "\<not> is_word_opt (if pre = [] then prev else Some (last pre))"
      and q: "post = [] \<or> \<not> is_word (hd post)"
      by blast
    show "?A \<or> ?B"
    proof (cases pre)
      case Nil
      with w s a p q have ?A by auto
      then show ?thesis ..
    next
      case (Cons c' pre')
      with s have c: "c' = c" and s': "cs = pre' @ mid @ post" by simp_all
      from p Cons c have "\<not> is_word_opt (if pre' = [] then Some c else Some (last pre'))"
        by (cases "pre' = []") simp_all
      with w s' a q have ?B by blast
      then show ?thesis ..
    qed
  qed
  finally show ?case .
qed

lemma search_words_whole_word:
  assumes "\<forall>w \<in> set ws. w \<noteq> [] \<and> (\<forall>p \<in> set w. \<forall>c. eq p c \<longrightarrow> is_word c)"
  shows "search_words eq ws None s \<longleftrightarrow> (\<exists>w \<in> set ws. occurs_as_whole_word eq w s)"
proof -
  have "\<not> is_word_opt (if pre = [] then None else Some (last pre))
        \<longleftrightarrow> pre = [] \<or> \<not> is_word (last pre)" for pre :: string
    by (simp add: is_word_opt_def)
  then show ?thesis
    unfolding search_words_iff [OF assms] occurs_as_whole_word_def by simp
qed

lemma contains_iff_sublist: "contains s sub \<longleftrightarrow> sublist sub s"
  by (induction s) (simp_all add: sublist_Cons_right)

lemma modality_words_letters:
  "\<forall>w \<in> set [''shall'', ''should'', ''may'']. w \<noteq> [] \<and> set w \<subseteq> set ''shaloudmy''"
  by simp

lemma list_all2_eq_ignorecase:
  assumes "set w \<subseteq> set ''shaloudmy''"
  shows "list_all2 eq_ignorecase w mid = list_all2 same_letter w mid"
proof -
  have "eq_ignorecase p c = same_letter p c" if "p \<in> set w" for p c
    using that assms eq_ignorecase_same_letter [of p c] by blast
  then show ?thesis
    by (auto simp: list_all2_conv_all_nth)
qed

lemma occurs_ignoring_case:
  assumes "set w \<subseteq> set ''shaloudmy''"
  shows "occurs_as_whole_word eq_ignorecase w s = occurs_as_whole_word same_letter w s"
  unfolding occurs_as_whole_word_def list_all2_eq_ignorecase [OF assms] ..

lemma search_modality_words:
  "search_words eq_ignorecase [''shall'', ''should'', ''may''] None block
   \<longleftrightarrow> (\<exists>w \<in> set [''shall'', ''should'', ''may'']. occurs_as_whole_word same_letter w block)"
proof -
  have a: "\<forall>w \<in> set [''shall'', ''should'', ''may''].
             w \<noteq> [] \<and> (\<forall>p \<in> set w. \<forall>c. eq_ignorecase p c \<longrightarrow> is_word c)"
  proof (intro ballI conjI allI impI)
    fix w assume "w \<in> set [''shall'', ''should'', ''may'']"
    then show "w \<noteq> []" by auto
  next
    fix w p c
    assume "w \<in> set [''shall'', ''should'', ''may'']" and "p \<in> set w" and e: "eq_ignorecase p c"
    then have p: "p \<in> set ''shaloudmy''" by auto
    from e have "same_letter p c" by (simp add: eq_ignorecase_same_letter [OF p])
    with p show "is_word c" by (rule same_letter_is_word)
  qed
  have "occurs_as_whole_word eq_ignorecase w block = occurs_as_whole_word same_letter w block"
    if "w \<in> set [''shall'', ''should'', ''may'']" for w
    using that modality_words_letters by (intro occurs_ignoring_case) blast
  then show ?thesis
    unfolding search_words_whole_word [OF a] by blast
qed

lemma search_definition_term:
  assumes "trm \<in> set REQUIRED_DEFINITIONS"
  shows "search_words (=) [trm] None t \<longleftrightarrow> occurs_as_whole_word (=) trm t"
proof -
  have "trm \<noteq> [] \<and> (\<forall>p \<in> set trm. is_word p)"
    using assms by (auto simp: REQUIRED_DEFINITIONS_def is_word_def code_point_def)
  then have "\<forall>w \<in> set [trm]. w \<noteq> [] \<and> (\<forall>p \<in> set w. \<forall>c. p = c \<longrightarrow> is_word c)"
    by simp
  from search_words_whole_word [OF this] show ?thesis by simp
qed

lemma slice_nth:
  assumes "stop \<le> length xs"
  shows "slice xs start stop = map (\<lambda>i. xs ! i) [start..<stop]"
proof (rule nth_equalityI)
  show "length (slice xs start stop) = length (map (\<lambda>i. xs ! i) [start..<stop])"
    using assms by (simp add: slice_def)
  fix i assume "i < length (slice xs start stop)"
  then have "i < stop - start" by (simp add: slice_def)
  with assms show "slice xs start stop ! i = map (\<lambda>i. xs ! i) [start..<stop] ! i"
    by (simp add: slice_def)
qed

lemma id_lines_line_range:
  assumes "(ln, r) \<in> set (id_lines lines)"
  shows "1 \<le> ln \<and> ln \<le> length lines"
proof -
  from assms obtain line where "(ln, line) \<in> set (enumerate 1 lines)"
    by (auto simp: id_lines_def)
  then show ?thesis by (auto simp: in_set_enumerate_eq)
qed

subsection \<open>The line count check\<close>

lemma validate_line_limits_readable:
  "\<forall>p \<in> set files. contents p \<noteq> None \<Longrightarrow>
   validate_line_limits files max_lines =
     Inr (concat (map (\<lambda>p. line_limit_findings (name p) (length (splitlines (the (contents p))))
                            max_lines) files))"
  by (induction files) (auto simp: read_text_def)

lemma splitlines_from_replicate_LF:
  "splitlines_from False [] (replicate n LF) = replicate n []"
  by (induction n) (simp_all add: is_linebreak_def LF_def CR_def code_point_def)

lemma splitlines_replicate_LF: "length (splitlines (replicate n LF)) = n"
  by (simp add: splitlines_def splitlines_from_replicate_LF)

text \<open>
  C7: a file whose lower-cased name starts with \<^verbatim>\<open>rtm\<close> adds no finding to the line count
  check whatever its length; any other file adds exactly one error when it has more
  lines than the maximum, and nothing otherwise. A text of 300 lines under a maximum of
  150 gives no finding as \<^verbatim>\<open>rtm.md\<close> and one error as \<^verbatim>\<open>99-appendix.md\<close>.
\<close>

theorem line_limits_rtm_exempt:
  "(\<forall>p \<in> set files. contents p \<noteq> None) \<longrightarrow>
   validate_line_limits files max_lines =
     Inr (concat (map (\<lambda>p.
        if startswith (lower (name p)) ''rtm'' then []
        else if int (length (splitlines (the (contents p)))) > max_lines
        then [error_finding (name p @ '' has '' @ str_nat (length (splitlines (the (contents p))))
                @ '' lines (max '' @ str_int max_lines @ ''); split this section.'')]
        else []) files))
   \<and> (\<forall>t. length (splitlines t) = 300 \<longrightarrow>
        validate_line_limits [\<lparr>name = ''rtm.md'', is_file = Some True, contents = Some t\<rparr>] 150 = Inr []
      \<and> validate_line_limits [\<lparr>name = ''99-appendix.md'', is_file = Some True, contents = Some t\<rparr>] 150
          = Inr [error_finding ''99-appendix.md has 300 lines (max 150); split this section.''])"
proof (intro conjI impI allI)
  assume "\<forall>p \<in> set files. contents p \<noteq> None"
  then show "validate_line_limits files max_lines =
     Inr (concat (map (\<lambda>p.
        if startswith (lower (name p)) ''rtm'' then []
        else if int (length (splitlines (the (contents p)))) > max_lines
        then [error_finding (name p @ '' has '' @ str_nat (length (splitlines (the (contents p))))
                @ '' lines (max '' @ str_int max_lines @ ''); split this section.'')]
        else []) files))"
    by (simp add: validate_line_limits_readable line_limit_findings_def cong: map_cong)
next
  fix t assume "length (splitlines t) = 300"
  then show "validate_line_limits [\<lparr>name = ''rtm.md'', is_file = Some True, contents = Some t\<rparr>] 150 = Inr []"
    by (simp add: read_text_def line_limit_findings_def startswith_def char_class_eval)
next
  fix t assume "length (splitlines t) = 300"
  then show "validate_line_limits [\<lparr>name = ''99-appendix.md'', is_file = Some True, contents = Some t\<rparr>] 150
          = Inr [error_finding ''99-appendix.md has 300 lines (max 150); split this section.'']"
    by (simp add: read_text_def line_limit_findings_def startswith_def char_class_eval
        str_nat.simps str_int_def)
qed

theorem line_limits_rtm_exempt_witness:
  "validate_line_limits
     [\<lparr>name = ''03-functional.md'', is_file = Some True, contents = Some [LF, LF, LF]\<rparr>,
      \<lparr>name = ''RTM.md'', is_file = Some True, contents = Some [LF, LF, LF]\<rparr>] 2
     = Inr [error_finding ''03-functional.md has 3 lines (max 2); split this section.'']
   \<and> validate_line_limits
       [\<lparr>name = ''rtm.md'', is_file = Some True, contents = Some (replicate 300 LF)\<rparr>] 150 = Inr []
   \<and> validate_line_limits
       [\<lparr>name = ''99-appendix.md'', is_file = Some True, contents = Some (replicate 300 LF)\<rparr>] 150
       = Inr [error_finding ''99-appendix.md has 300 lines (max 150); split this section.'']"
  using line_limits_rtm_exempt
    [of "[\<lparr>name = ''03-functional.md'', is_file = Some True, contents = Some [LF, LF, LF]\<rparr>,
          \<lparr>name = ''RTM.md'', is_file = Some True, contents = Some [LF, LF, LF]\<rparr>]" 2]
    splitlines_replicate_LF [of 300]
  by (simp add: startswith_def splitlines_def char_class_eval str_nat.simps str_int_def)

subsection \<open>The definitions check\<close>

lemma find_first:
  assumes "\<forall>p \<in> set before. \<not> P p" and "P x"
  shows "find P (before @ x # after) = Some x"
  using assms by (induction before) simp_all

lemma find_none: "(\<forall>p \<in> set xs. \<not> P p) \<Longrightarrow> find P xs = None"
  by (simp add: find_None_iff)

lemma concat_map_if_filter:
  "concat (map (\<lambda>x. if P x then [f x] else []) xs) = map f (filter P xs)"
  by (induction xs) simp_all

text \<open>
  C8: when no file name starts with \<^verbatim>\<open>00\<close> the definitions check has no finding; otherwise,
  for the first file whose name starts with \<^verbatim>\<open>00\<close>, it has exactly one error for each term
  of the fixed list that does not occur as a whole word in the text of that file, in
  the order of the list, and the error names the file and the term.
\<close>

theorem definitions_completeness:
  "((\<forall>p \<in> set files. \<not> startswith (name p) ''00'') \<longrightarrow> validate_definitions files = Inr [])
   \<and> (\<forall>before intro after t.
         files = before @ intro # after
         \<and> (\<forall>p \<in> set before. \<not> startswith (name p) ''00'')
         \<and> startswith (name intro) ''00'' \<and> contents intro = Some t
       \<longrightarrow> validate_definitions files =
             Inr (map (\<lambda>trm. \<lparr>level = ''error'',
                              message = name intro
                                @ '' is missing required definition or acronym: '' @ trm @ ''.''\<rparr>)
                    (filter (\<lambda>trm. \<not> occurs_as_whole_word (=) trm t)
                       [''SRS'', ''RTM'', ''MoSCoW'', ''IADT'', ''FR'', ''NFR'', ''DR'', ''IR'', ''CR''])))"
proof (intro conjI impI allI)
  assume "\<forall>p \<in> set files. \<not> startswith (name p) ''00''"
  then have "find (\<lambda>p. startswith (name p) ''00'') files = None" by (rule find_none)
  then show "validate_definitions files = Inr []" by (simp add: validate_definitions_def)
next
  fix before intro after t
  assume a: "files = before @ intro # after
         \<and> (\<forall>p \<in> set before. \<not> startswith (name p) ''00'')
         \<and> startswith (name intro) ''00'' \<and> contents intro = Some t"
  then have f: "find (\<lambda>p. startswith (name p) ''00'') files = Some intro"
    by (simp add: find_first)
  have w: "filter (\<lambda>trm. \<not> search_words (=) [trm] None t) REQUIRED_DEFINITIONS
         = filter (\<lambda>trm. \<not> occurs_as_whole_word (=) trm t) REQUIRED_DEFINITIONS"
    by (intro filter_cong refl) (simp only: search_definition_term)
  from a have c: "contents intro = Some t" by simp
  have "validate_definitions files =
          Inr (map (\<lambda>trm. error_finding
                     (name intro @ '' is missing required definition or acronym: '' @ trm @ ''.''))
                 (filter (\<lambda>trm. \<not> search_words (=) [trm] None t) REQUIRED_DEFINITIONS))"
    by (simp only: validate_definitions_def f c option.case read_text_def sum.case
        concat_map_if_filter)
  then show "validate_definitions files =
             Inr (map (\<lambda>trm. \<lparr>level = ''error'',
                              message = name intro
                                @ '' is missing required definition or acronym: '' @ trm @ ''.''\<rparr>)
                    (filter (\<lambda>trm. \<not> occurs_as_whole_word (=) trm t)
                       [''SRS'', ''RTM'', ''MoSCoW'', ''IADT'', ''FR'', ''NFR'', ''DR'', ''IR'', ''CR'']))"
    unfolding w by (simp only: REQUIRED_DEFINITIONS_def error_finding_def)
qed

theorem definitions_completeness_witness:
  "validate_definitions
     [\<lparr>name = ''00-intro.md'', is_file = Some True,
        contents = Some ''SRS RTMs; MoSCoW IADT NFR DR IR CR_x''\<rparr>,
      \<lparr>name = ''01-product.md'', is_file = Some True, contents = Some ''RTM FR CR''\<rparr>]
     = Inr [\<lparr>level = ''error'',
              message = ''00-intro.md is missing required definition or acronym: RTM.''\<rparr>,
            \<lparr>level = ''error'',
              message = ''00-intro.md is missing required definition or acronym: FR.''\<rparr>,
            \<lparr>level = ''error'',
              message = ''00-intro.md is missing required definition or acronym: CR.''\<rparr>]
   \<and> validate_definitions
       [\<lparr>name = ''01-product.md'', is_file = Some True, contents = Some ''RTM FR CR''\<rparr>]
     = Inr []"
proof -
  let ?t = "''SRS RTMs; MoSCoW IADT NFR DR IR CR_x''"
  let ?intro = "\<lparr>name = ''00-intro.md'', is_file = Some True, contents = Some ?t\<rparr>"
  let ?other = "\<lparr>name = ''01-product.md'', is_file = Some True, contents = Some ''RTM FR CR''\<rparr>"
  let ?terms = "[''SRS'', ''RTM'', ''MoSCoW'', ''IADT'', ''FR'', ''NFR'', ''DR'', ''IR'', ''CR'']"
  have e: "filter (\<lambda>trm. \<not> search_words (=) [trm] None ?t) ?terms = [''RTM'', ''FR'', ''CR'']"
    by (simp add: regex_eval char_class_eval)
  have "filter (\<lambda>trm. \<not> occurs_as_whole_word (=) trm ?t) ?terms
      = filter (\<lambda>trm. \<not> search_words (=) [trm] None ?t) ?terms"
    by (intro filter_cong refl)
      (simp only: search_definition_term [unfolded REQUIRED_DEFINITIONS_def])
  from this e
  have f: "filter (\<lambda>trm. \<not> occurs_as_whole_word (=) trm ?t) ?terms = [''RTM'', ''FR'', ''CR'']"
    by (rule trans)
  have h: "[?intro, ?other] = [] @ ?intro # [?other]
         \<and> (\<forall>p \<in> set []. \<not> startswith (name p) ''00'')
         \<and> startswith (name ?intro) ''00''
         \<and> contents ?intro = Some ?t"
    by (simp add: startswith_def)
  note t = definitions_completeness [of "[?intro, ?other]", THEN conjunct2, rule_format, OF h]
  have 1: "validate_definitions [?intro, ?other]
     = Inr [\<lparr>level = ''error'',
              message = ''00-intro.md is missing required definition or acronym: RTM.''\<rparr>,
            \<lparr>level = ''error'',
              message = ''00-intro.md is missing required definition or acronym: FR.''\<rparr>,
            \<lparr>level = ''error'',
              message = ''00-intro.md is missing required definition or acronym: CR.''\<rparr>]"
    unfolding t f by simp
  have n: "\<forall>p \<in> set [?other]. \<not> startswith (name p) ''00''"
    by (simp add: startswith_def)
  have 2: "validate_definitions [?other] = Inr []"
    by (rule definitions_completeness [of "[?other]", THEN conjunct1, THEN mp, OF n])
  from 1 2 show ?thesis by (rule conjI)
qed

subsection \<open>The identifiers that the pattern matches\<close>

lemma match_req_id_form:
  assumes "match_req_id prev s = Some m"
  shows "\<exists>cat d1 d2 d3. cat \<in> set REQ_CATEGORIES \<and> m = cat @ [CHR ''-'', d1, d2, d3]"
proof -
  from assms obtain cat where
    f: "find (\<lambda>cat. if prefix cat s then req_id_tail (drop (length cat) s) else False)
          REQ_CATEGORIES = Some cat"
    and m: "m = take (length cat + 4) s"
    by (auto simp: match_req_id_def split: if_splits option.splits)
  from f have c: "cat \<in> set REQ_CATEGORIES" and p: "prefix cat s"
    and t: "req_id_tail (drop (length cat) s)"
    by (auto simp: find_Some_iff split: if_splits)
  from t obtain d1 d2 d3 rest where d: "drop (length cat) s = CHR ''-'' # d1 # d2 # d3 # rest"
    by (auto simp: req_id_tail_def split: list.splits)
  from p obtain r where "s = cat @ r" by (auto simp: prefix_def)
  with d have "s = cat @ CHR ''-'' # d1 # d2 # d3 # rest" by simp
  with m have "m = cat @ [CHR ''-'', d1, d2, d3]" by simp
  with c show ?thesis by blast
qed

lemma finditer_req_form:
  "req \<in> set (finditer_req prev s) \<Longrightarrow>
   \<exists>cat d1 d2 d3. cat \<in> set REQ_CATEGORIES \<and> req = cat @ [CHR ''-'', d1, d2, d3]"
proof (induction prev s rule: finditer_req.induct)
  case (1 prev)
  then show ?case by simp
next
  case (2 prev c cs)
  show ?case
  proof (cases "match_req_id prev (c # cs)")
    case None
    with 2 show ?thesis by simp
  next
    case (Some m)
    with 2 show ?thesis using match_req_id_form [OF Some] by auto
  qed
qed

lemma id_lines_form:
  assumes "(line_no, req) \<in> set (id_lines lines)"
  shows "\<exists>cat d1 d2 d3. cat \<in> set REQ_CATEGORIES \<and> req = cat @ [CHR ''-'', d1, d2, d3]"
proof -
  from assms obtain line where "req \<in> set (finditer_req None line)"
    by (auto simp: id_lines_def)
  then show ?thesis by (rule finditer_req_form)
qed

lemma category_of_req:
  assumes "cat \<in> set REQ_CATEGORIES"
  shows "takeWhile (\<lambda>c. c \<noteq> CHR ''-'') (cat @ CHR ''-'' # ds) = cat
         \<and> (\<exists>pre. CATEGORY_PREFIX cat = Some pre
               \<and> (cat, pre) \<in> set [(''IR'', ''02''), (''FR'', ''03''), (''DR'', ''04''),
                                     (''NFR'', ''05''), (''CR'', ''06'')])"
  using assms by (auto simp: REQ_CATEGORIES_def CATEGORY_PREFIX_def)

lemma check_occurrence_form:
  assumes "cat \<in> set REQ_CATEGORIES" and "req = cat @ [CHR ''-'', d1, d2, d3]"
  shows "\<exists>pre. CATEGORY_PREFIX cat = Some pre
     \<and> check_occurrence nm line_no req seen =
         Inr ((case seen req of
                 Some (original_name, original_line) \<Rightarrow>
                   [duplicate_finding req nm line_no original_name original_line]
               | None \<Rightarrow> [])
              @ (if startswith nm pre then [] else [prefix_finding req nm pre cat]),
              (case seen req of Some x \<Rightarrow> seen | None \<Rightarrow> seen(req \<mapsto> (nm, line_no))))"
proof -
  from category_of_req [OF assms(1), of "[d1, d2, d3]"] assms(2)
  obtain pre where t: "takeWhile (\<lambda>c. c \<noteq> CHR ''-'') req = cat"
    and p: "CATEGORY_PREFIX cat = Some pre" by auto
  show ?thesis
    by (rule exI [of _ pre]) (simp add: check_occurrence_def t p split: option.splits)
qed

subsection \<open>Telling the duplicate errors from the other findings\<close>

lemma id_lines_req_id_form: "(line_no, req) \<in> set (id_lines lines) \<Longrightarrow> req_id_form req"
  using id_lines_form [of line_no req lines] by (auto simp: req_id_form_def)

lemma is_duplicate_error_warning [simp]: "\<not> is_duplicate_error req (warning_finding msg)"
  by (simp add: is_duplicate_error_def warning_finding_def)

lemma is_duplicate_error_duplicate:
  assumes "req_id_form r" and "req_id_form req"
  shows "is_duplicate_error req (duplicate_finding r nm ln on ol) \<longleftrightarrow> r = req"
  using assms
  by (auto simp: req_id_form_def REQ_CATEGORIES_def is_duplicate_error_def duplicate_finding_def
      error_finding_def)

lemma is_duplicate_error_modality:
  assumes "req_id_form r"
  shows "\<not> is_duplicate_error req (modality_finding r nm ln)"
  using assms
  by (auto simp: req_id_form_def REQ_CATEGORIES_def is_duplicate_error_def modality_finding_def
      error_finding_def)

lemma filter_duplicates_block_findings:
  assumes "req_id_form r"
  shows "filter (is_duplicate_error req) (block_findings r nm ln block) = []"
  using is_duplicate_error_modality [OF assms]
  by (simp add: block_findings_def REQUIRED_META_FIELDS_def meta_finding_def)

lemma filter_duplicates_check_blocks:
  assumes "\<forall>(ln, r) \<in> set ids. req_id_form r"
  shows "filter (is_duplicate_error req) (check_blocks nm lines ids) = []"
proof -
  have "\<forall>i \<in> set [0..<length ids]. req_id_form (snd (ids ! i))"
    using assms by (auto simp: split_beta dest: nth_mem)
  then show ?thesis
    unfolding check_blocks_def filter_concat
    by (simp add: filter_duplicates_block_findings comp_def)
qed

subsection \<open>The scan of one file and of all files\<close>

lemma check_occurrence_cases:
  assumes "req_id_form r"
  obtains pre cat where "seen r = None"
      "check_occurrence nm ln r seen =
         Inr (if startswith nm pre then [] else [prefix_finding r nm pre cat], seen(r \<mapsto> (nm, ln)))"
  | pre cat on ol where "seen r = Some (on, ol)"
      "check_occurrence nm ln r seen =
         Inr (duplicate_finding r nm ln on ol
              # (if startswith nm pre then [] else [prefix_finding r nm pre cat]), seen)"
proof -
  from assms obtain cat d1 d2 d3 where c: "cat \<in> set REQ_CATEGORIES"
    and r: "r = cat @ [CHR ''-'', d1, d2, d3]"
    by (auto simp: req_id_form_def)
  from check_occurrence_form [OF c r, of nm ln seen] obtain pre where
    e: "check_occurrence nm ln r seen =
         Inr ((case seen r of
                 Some (original_name, original_line) \<Rightarrow>
                   [duplicate_finding r nm ln original_name original_line]
               | None \<Rightarrow> [])
              @ (if startswith nm pre then [] else [prefix_finding r nm pre cat]),
              (case seen r of Some x \<Rightarrow> seen | None \<Rightarrow> seen(r \<mapsto> (nm, ln))))"
    by blast
  show thesis
  proof (cases "seen r")
    case None
    with e that(1) [of pre cat] show thesis by simp
  next
    case (Some x)
    obtain on ol where x: "x = (on, ol)" by (cases x)
    with e Some that(2) [of on ol pre cat] show thesis by simp
  qed
qed

lemma scan_ids_total:
  "\<forall>(ln, r) \<in> set ids. req_id_form r \<Longrightarrow> \<exists>fs seen'. scan_ids nm ids seen = Inr (fs, seen')"
proof (induction ids arbitrary: seen)
  case Nil
  then show ?case by simp
next
  case (Cons a ids)
  obtain ln r where a: "a = (ln, r)" by (cases a)
  with Cons.prems have v: "req_id_form r" and vs: "\<forall>(ln, r) \<in> set ids. req_id_form r" by auto
  from v obtain fs0 seen0 where c: "check_occurrence nm ln r seen = Inr (fs0, seen0)"
    by (rule check_occurrence_cases [of r seen nm ln]) blast+
  from Cons.IH [OF vs, of seen0] obtain fs1 seen1 where "scan_ids nm ids seen0 = Inr (fs1, seen1)"
    by blast
  with a c show ?case by simp
qed

lemma scan_ids_seen:
  assumes "\<forall>(ln, r) \<in> set ids. req_id_form r" and "req_id_form req"
    and "seen req = Some (on, ol)" and "scan_ids nm ids seen = Inr (fs, seen')"
  shows "seen' req = Some (on, ol)
     \<and> filter (is_duplicate_error req) fs =
         map (\<lambda>(n, ln, r). duplicate_finding req n ln on ol)
           (filter (\<lambda>(n, ln, r). r = req) (map (\<lambda>(ln, r). (nm, ln, r)) ids))"
  using assms
proof (induction ids arbitrary: seen fs seen')
  case Nil
  then show ?case by simp
next
  case (Cons a ids)
  obtain ln r where a: "a = (ln, r)" by (cases a)
  with Cons.prems have v: "req_id_form r" and vs: "\<forall>(ln, r) \<in> set ids. req_id_form r" by auto
  note dd = is_duplicate_error_duplicate [OF v Cons.prems(2)]
  show ?case
  proof (rule check_occurrence_cases [OF v, of seen nm ln])
    fix pre cat
    assume n: "seen r = None"
      and c: "check_occurrence nm ln r seen =
         Inr (if startswith nm pre then [] else [prefix_finding r nm pre cat], seen(r \<mapsto> (nm, ln)))"
    from n Cons.prems(3) have ne: "r \<noteq> req" by auto
    from Cons.prems(4) a c obtain fs1 where
      s: "scan_ids nm ids (seen(r \<mapsto> (nm, ln))) = Inr (fs1, seen')"
      and f: "fs = (if startswith nm pre then [] else [prefix_finding r nm pre cat]) @ fs1"
      by (auto split: sum.splits)
    from ne Cons.prems(3) have "(seen(r \<mapsto> (nm, ln))) req = Some (on, ol)" by simp
    from Cons.IH [OF vs Cons.prems(2) this s] f a ne show ?thesis
      by (simp add: prefix_finding_def)
  next
    fix pre cat on' ol'
    assume n: "seen r = Some (on', ol')"
      and c: "check_occurrence nm ln r seen =
         Inr (duplicate_finding r nm ln on' ol'
              # (if startswith nm pre then [] else [prefix_finding r nm pre cat]), seen)"
    from Cons.prems(4) a c obtain fs1 where
      s: "scan_ids nm ids seen = Inr (fs1, seen')"
      and f: "fs = duplicate_finding r nm ln on' ol'
              # (if startswith nm pre then [] else [prefix_finding r nm pre cat]) @ fs1"
      by (auto split: sum.splits)
    from Cons.IH [OF vs Cons.prems(2) Cons.prems(3) s] f a n Cons.prems(3) dd show ?thesis
      by (auto simp: prefix_finding_def)
  qed
qed

lemma scan_ids_unseen:
  assumes "\<forall>(ln, r) \<in> set ids. req_id_form r" and "req_id_form req"
    and "seen req = None" and "scan_ids nm ids seen = Inr (fs, seen')"
  shows "case filter (\<lambda>(n, ln, r). r = req) (map (\<lambda>(ln, r). (nm, ln, r)) ids) of
           [] \<Rightarrow> seen' req = None \<and> filter (is_duplicate_error req) fs = []
         | (n0, l0, r0) # rest \<Rightarrow>
             seen' req = Some (n0, l0)
             \<and> filter (is_duplicate_error req) fs =
                 map (\<lambda>(n, ln, r). duplicate_finding req n ln n0 l0) rest"
  using assms
proof (induction ids arbitrary: seen fs seen')
  case Nil
  then show ?case by simp
next
  case (Cons a ids)
  obtain ln r where a: "a = (ln, r)" by (cases a)
  with Cons.prems have v: "req_id_form r" and vs: "\<forall>(ln, r) \<in> set ids. req_id_form r" by auto
  note dd = is_duplicate_error_duplicate [OF v Cons.prems(2)]
  show ?case
  proof (rule check_occurrence_cases [OF v, of seen nm ln])
    fix pre cat
    assume n: "seen r = None"
      and c: "check_occurrence nm ln r seen =
         Inr (if startswith nm pre then [] else [prefix_finding r nm pre cat], seen(r \<mapsto> (nm, ln)))"
    from Cons.prems(4) a c obtain fs1 where
      s: "scan_ids nm ids (seen(r \<mapsto> (nm, ln))) = Inr (fs1, seen')"
      and f: "fs = (if startswith nm pre then [] else [prefix_finding r nm pre cat]) @ fs1"
      by (auto split: sum.splits)
    show ?thesis
    proof (cases "r = req")
      case True
      then have "(seen(r \<mapsto> (nm, ln))) req = Some (nm, ln)" by simp
      from scan_ids_seen [OF vs Cons.prems(2) this s] f a True show ?thesis
        by (simp add: prefix_finding_def)
    next
      case False
      with Cons.prems(3) have "(seen(r \<mapsto> (nm, ln))) req = None" by simp
      from Cons.IH [OF vs Cons.prems(2) this s] f a False show ?thesis
        by (auto simp: prefix_finding_def split: list.splits)
    qed
  next
    fix pre cat on' ol'
    assume n: "seen r = Some (on', ol')"
      and c: "check_occurrence nm ln r seen =
         Inr (duplicate_finding r nm ln on' ol'
              # (if startswith nm pre then [] else [prefix_finding r nm pre cat]), seen)"
    from n Cons.prems(3) have ne: "r \<noteq> req" by auto
    from Cons.prems(4) a c obtain fs1 where
      s: "scan_ids nm ids seen = Inr (fs1, seen')"
      and f: "fs = duplicate_finding r nm ln on' ol'
              # (if startswith nm pre then [] else [prefix_finding r nm pre cat]) @ fs1"
      by (auto split: sum.splits)
    from Cons.IH [OF vs Cons.prems(2) Cons.prems(3) s] f a ne dd show ?thesis
      by (auto simp: prefix_finding_def split: list.splits)
  qed
qed

lemma occurrences_Nil [simp]: "occurrences [] = []"
  by (simp add: occurrences_def)

lemma occurrences_Cons:
  "occurrences (p # ps) =
     (case contents p of
        None \<Rightarrow> []
      | Some t \<Rightarrow> map (\<lambda>(line_no, req). (name p, line_no, req)) (id_lines (splitlines t)))
     @ occurrences ps"
  by (simp add: occurrences_def)

lemma occurrences_req_id_form:
  assumes "(n, ln, r) \<in> set (occurrences files)"
  shows "req_id_form r"
  using assms
  by (auto simp: occurrences_def split: option.splits intro: id_lines_req_id_form)

lemma id_lines_valid: "\<forall>(ln, r) \<in> set (id_lines lines). req_id_form r"
  by (auto intro: id_lines_req_id_form)

lemma requirements_of_file_total:
  assumes "contents p = Some t"
  shows "\<exists>fs seen'. requirements_of_file p seen = Inr (fs, seen')"
proof -
  from scan_ids_total [OF id_lines_valid, of "name p" "splitlines t" seen]
  obtain fs seen' where "scan_ids (name p) (id_lines (splitlines t)) seen = Inr (fs, seen')"
    by blast
  with assms show ?thesis by (simp add: requirements_of_file_def read_text_def Let_def)
qed

lemma requirements_of_file_Inr:
  assumes "requirements_of_file p seen = Inr (fs, seen')"
  obtains t fs0 where "contents p = Some t"
    and "scan_ids (name p) (id_lines (splitlines t)) seen = Inr (fs0, seen')"
    and "fs = fs0 @ check_blocks (name p) (splitlines t) (id_lines (splitlines t))"
    and "occurrences (p # ps) =
           map (\<lambda>(ln, r). (name p, ln, r)) (id_lines (splitlines t)) @ occurrences ps"
  using assms
  by (auto simp: requirements_of_file_def read_text_def occurrences_Cons Let_def
      split: option.splits sum.splits)

lemma requirements_of_files_total:
  "\<forall>p \<in> set files. contents p \<noteq> None \<Longrightarrow> \<exists>fs. requirements_of_files files seen = Inr fs"
proof (induction files arbitrary: seen)
  case Nil
  then show ?case by simp
next
  case (Cons p ps)
  then obtain t where "contents p = Some t" by auto
  from requirements_of_file_total [OF this, of seen]
  obtain fs0 seen0 where f: "requirements_of_file p seen = Inr (fs0, seen0)" by blast
  from Cons.IH [of seen0] Cons.prems obtain fs1 where "requirements_of_files ps seen0 = Inr fs1"
    by auto
  with f show ?case by simp
qed

lemma requirements_of_files_seen:
  assumes "req_id_form req" and "seen req = Some (on, ol)"
    and "requirements_of_files files seen = Inr fs"
  shows "filter (is_duplicate_error req) fs =
           map (\<lambda>(n, ln, r). duplicate_finding req n ln on ol)
             (filter (\<lambda>(n, ln, r). r = req) (occurrences files))"
  using assms
proof (induction files arbitrary: seen fs)
  case Nil
  then show ?case by simp
next
  case (Cons p ps)
  from Cons.prems(3) obtain fs0 seen0 fs1 where
    f: "requirements_of_file p seen = Inr (fs0, seen0)"
    and r: "requirements_of_files ps seen0 = Inr fs1" and fs: "fs = fs0 @ fs1"
    by (auto split: sum.splits)
  from f obtain t fsa where s: "scan_ids (name p) (id_lines (splitlines t)) seen = Inr (fsa, seen0)"
    and fs0: "fs0 = fsa @ check_blocks (name p) (splitlines t) (id_lines (splitlines t))"
    and oc: "occurrences (p # ps) =
           map (\<lambda>(ln, r). (name p, ln, r)) (id_lines (splitlines t)) @ occurrences ps"
    by (rule requirements_of_file_Inr)
  from scan_ids_seen [OF id_lines_valid Cons.prems(1) Cons.prems(2) s]
  have s0: "seen0 req = Some (on, ol)"
    and d0: "filter (is_duplicate_error req) fsa =
         map (\<lambda>(n, ln, r). duplicate_finding req n ln on ol)
           (filter (\<lambda>(n, ln, r). r = req)
              (map (\<lambda>(ln, r). (name p, ln, r)) (id_lines (splitlines t))))"
    by simp_all
  from Cons.IH [OF Cons.prems(1) s0 r]
  have d1: "filter (is_duplicate_error req) fs1 =
           map (\<lambda>(n, ln, r). duplicate_finding req n ln on ol)
             (filter (\<lambda>(n, ln, r). r = req) (occurrences ps))" .
  show ?case
    unfolding fs fs0 oc
    by (simp only: filter_append map_append d0 d1
        filter_duplicates_check_blocks [OF id_lines_valid] append_Nil2)
qed

lemma requirements_of_files_unseen:
  assumes "req_id_form req" and "seen req = None"
    and "requirements_of_files files seen = Inr fs"
  shows "case filter (\<lambda>(n, ln, r). r = req) (occurrences files) of
           [] \<Rightarrow> filter (is_duplicate_error req) fs = []
         | (n0, l0, r0) # rest \<Rightarrow>
             filter (is_duplicate_error req) fs =
               map (\<lambda>(n, ln, r). duplicate_finding req n ln n0 l0) rest"
  using assms
proof (induction files arbitrary: seen fs)
  case Nil
  then show ?case by simp
next
  case (Cons p ps)
  from Cons.prems(3) obtain fs0 seen0 fs1 where
    f: "requirements_of_file p seen = Inr (fs0, seen0)"
    and r: "requirements_of_files ps seen0 = Inr fs1" and fs: "fs = fs0 @ fs1"
    by (auto split: sum.splits)
  from f obtain t fsa where s: "scan_ids (name p) (id_lines (splitlines t)) seen = Inr (fsa, seen0)"
    and fs0: "fs0 = fsa @ check_blocks (name p) (splitlines t) (id_lines (splitlines t))"
    and oc: "occurrences (p # ps) =
           map (\<lambda>(ln, r). (name p, ln, r)) (id_lines (splitlines t)) @ occurrences ps"
    by (rule requirements_of_file_Inr)
  let ?here = "filter (\<lambda>(n, ln, r). r = req)
                 (map (\<lambda>(ln, r). (name p, ln, r)) (id_lines (splitlines t)))"
  note u = scan_ids_unseen [OF id_lines_valid Cons.prems(1) Cons.prems(2) s]
  have b: "filter (is_duplicate_error req)
             (check_blocks (name p) (splitlines t) (id_lines (splitlines t))) = []"
    by (rule filter_duplicates_check_blocks [OF id_lines_valid])
  show ?case
  proof (cases ?here)
    case Nil
    with u have s0: "seen0 req = None" and d0: "filter (is_duplicate_error req) fsa = []"
      by simp_all
    from Cons.IH [OF Cons.prems(1) s0 r] Nil d0 b show ?thesis
      unfolding fs fs0 oc by (auto split: list.splits)
  next
    case (Cons x xs)
    obtain n0 l0 r0 where x: "x = (n0, l0, r0)" by (cases x)
    with u Cons have s0: "seen0 req = Some (n0, l0)"
      and d0: "filter (is_duplicate_error req) fsa =
                 map (\<lambda>(n, ln, r). duplicate_finding req n ln n0 l0) xs"
      by simp_all
    from requirements_of_files_seen [OF Cons.prems(1) s0 r] Cons x d0 b show ?thesis
      unfolding fs fs0 oc by simp
  qed
qed

lemma any_req_id_total:
  "\<forall>p \<in> set files. contents p \<noteq> None \<Longrightarrow> \<exists>b. any_req_id files = Inr b"
  by (induction files) (auto simp: read_text_def)

lemma category_coverage_total:
  assumes "\<forall>p \<in> set files. contents p \<noteq> None"
  shows "\<exists>cs. category_coverage files pres = Inr cs \<and> (\<forall>f \<in> set cs. level f = ''warning'')"
proof (induction pres)
  case Nil
  then show ?case by simp
next
  case (Cons pre pres)
  then obtain cs where c: "category_coverage files pres = Inr cs"
    and w: "\<forall>f \<in> set cs. level f = ''warning''" by blast
  have "\<forall>p \<in> set (filter (\<lambda>p. startswith (name p) pre) files). contents p \<noteq> None"
    using assms by simp
  from any_req_id_total [OF this] obtain b where
    "any_req_id (filter (\<lambda>p. startswith (name p) pre) files) = Inr b" by blast
  with c w show ?case by (auto simp: Let_def warning_finding_def)
qed

lemma validate_requirements_total:
  assumes "\<forall>p \<in> set files. contents p \<noteq> None"
  shows "\<exists>fs. validate_requirements files = Inr fs"
proof -
  from requirements_of_files_total [OF assms, of Map.empty]
  obtain fs where f: "requirements_of_files files Map.empty = Inr fs" by blast
  from category_coverage_total [OF assms, of "[''02'', ''03'', ''04'', ''05'', ''06'']"]
  obtain cs where c: "category_coverage files [''02'', ''03'', ''04'', ''05'', ''06''] = Inr cs"
    by blast
  show ?thesis unfolding validate_requirements_def f c by (simp only: sum.case) blast
qed

lemma requirements_of_files_parts:
  assumes "requirements_of_files files seen = Inr fs" and "p \<in> set files"
  shows "\<exists>t seen0 fsa seen1.
           contents p = Some t
         \<and> scan_ids (name p) (id_lines (splitlines t)) seen0 = Inr (fsa, seen1)
         \<and> set fsa \<subseteq> set fs
         \<and> set (check_blocks (name p) (splitlines t) (id_lines (splitlines t))) \<subseteq> set fs"
  using assms
proof (induction files arbitrary: seen fs)
  case Nil
  then show ?case by simp
next
  case (Cons q qs)
  from Cons.prems(1) obtain fs0 seen0 fs1 where
    f: "requirements_of_file q seen = Inr (fs0, seen0)"
    and r: "requirements_of_files qs seen0 = Inr fs1" and fs: "fs = fs0 @ fs1"
    by (auto split: sum.splits)
  show ?case
  proof (cases "p = q")
    case True
    from f obtain t fsa where "contents q = Some t"
      and "scan_ids (name q) (id_lines (splitlines t)) seen = Inr (fsa, seen0)"
      and "fs0 = fsa @ check_blocks (name q) (splitlines t) (id_lines (splitlines t))"
      by (rule requirements_of_file_Inr)
    with True fs show ?thesis by auto
  next
    case False
    with Cons.prems(2) have "p \<in> set qs" by simp
    from Cons.IH [OF r this] obtain t s0 fsa s1 where "contents p = Some t"
      and "scan_ids (name p) (id_lines (splitlines t)) s0 = Inr (fsa, s1)"
      and a: "set fsa \<subseteq> set fs1"
      and b: "set (check_blocks (name p) (splitlines t) (id_lines (splitlines t))) \<subseteq> set fs1"
      by blast
    moreover from a fs have "set fsa \<subseteq> set fs" by auto
    moreover from b fs
    have "set (check_blocks (name p) (splitlines t) (id_lines (splitlines t))) \<subseteq> set fs"
      by auto
    ultimately show ?thesis by blast
  qed
qed

lemma validate_requirements_parts:
  assumes "validate_requirements files = Inr fs" and "p \<in> set files"
  shows "\<exists>t seen0 fsa seen1.
           contents p = Some t
         \<and> scan_ids (name p) (id_lines (splitlines t)) seen0 = Inr (fsa, seen1)
         \<and> set fsa \<subseteq> set fs
         \<and> set (check_blocks (name p) (splitlines t) (id_lines (splitlines t))) \<subseteq> set fs"
proof -
  from assms(1) obtain fs0 cs where f: "requirements_of_files files Map.empty = Inr fs0"
    and fs: "fs = fs0 @ cs"
    by (auto simp: validate_requirements_def split: sum.splits)
  from requirements_of_files_parts [OF f assms(2)] obtain t s0 fsa s1 where
    "contents p = Some t"
    and "scan_ids (name p) (id_lines (splitlines t)) s0 = Inr (fsa, s1)"
    and a: "set fsa \<subseteq> set fs0"
    and b: "set (check_blocks (name p) (splitlines t) (id_lines (splitlines t))) \<subseteq> set fs0"
    by blast
  moreover from a fs have "set fsa \<subseteq> set fs" by auto
  moreover from b fs
  have "set (check_blocks (name p) (splitlines t) (id_lines (splitlines t))) \<subseteq> set fs"
    by auto
  ultimately show ?thesis by blast
qed


subsection \<open>The checks on one requirement block\<close>

text \<open>
  C6: on every requirement block (the lines from the line of an identifier up to, and
  without, the line of the next entry of \<^verbatim>\<open>id_lines\<close>, or to the end of the file, joined by
  line feeds) the modality test gives exactly one error when none of shall, should,
  may occurs in it as a whole word, in any case of its letters, and nothing otherwise;
  the metadata test gives one warning for each of \<^verbatim>\<open>Priority:\<close>, \<^verbatim>\<open>Verify:\<close>, \<^verbatim>\<open>Release:\<close>
  that is not a substring of it; these are all the findings of the block, and they are
  in the result of the requirements check.
\<close>

theorem block_modality_and_metadata:
  "block_findings req nm ln block =
     (if \<exists>w \<in> set [''shall'', ''should'', ''may'']. occurs_as_whole_word same_letter w block
      then []
      else [\<lparr>level = ''error'',
              message = req @ '' in '' @ nm @ '':'' @ str_nat ln
                @ '' does not contain shall/should/may.''\<rparr>])
     @ map (\<lambda>fld. \<lparr>level = ''warning'',
                     message = req @ '' in '' @ nm @ '':'' @ str_nat ln
                       @ '' is missing '' @ [CHR 0x27] @ fld @ [CHR 0x27] @ ''.''\<rparr>)
         (filter (\<lambda>fld. \<not> sublist fld block) [''Priority:'', ''Verify:'', ''Release:''])
   \<and> check_blocks nm lines (id_lines lines) =
       concat (map (\<lambda>index.
           block_findings (snd (id_lines lines ! index)) nm (fst (id_lines lines ! index))
             (join_lines (map (\<lambda>i. lines ! i)
                [fst (id_lines lines ! index) - 1 ..<
                 (if index + 1 < length (id_lines lines)
                  then fst (id_lines lines ! (index + 1)) - 1 else length lines)])))
         [0..<length (id_lines lines)])
   \<and> (\<forall>files fs p t.
         validate_requirements files = Inr fs \<and> p \<in> set files \<and> contents p = Some t
       \<longrightarrow> set (check_blocks (name p) (splitlines t) (id_lines (splitlines t))) \<subseteq> set fs)"
proof (intro conjI allI impI)
  have "block_findings req nm ln block =
     (if search_words eq_ignorecase [''shall'', ''should'', ''may''] None block then []
      else [modality_finding req nm ln])
     @ map (meta_finding req nm ln)
         (filter (\<lambda>fld. \<not> contains block fld) [''Priority:'', ''Verify:'', ''Release:''])"
    by (simp add: block_findings_def REQUIRED_META_FIELDS_def)
  then show "block_findings req nm ln block =
     (if \<exists>w \<in> set [''shall'', ''should'', ''may'']. occurs_as_whole_word same_letter w block
      then []
      else [\<lparr>level = ''error'',
              message = req @ '' in '' @ nm @ '':'' @ str_nat ln
                @ '' does not contain shall/should/may.''\<rparr>])
     @ map (\<lambda>fld. \<lparr>level = ''warning'',
                     message = req @ '' in '' @ nm @ '':'' @ str_nat ln
                       @ '' is missing '' @ [CHR 0x27] @ fld @ [CHR 0x27] @ ''.''\<rparr>)
         (filter (\<lambda>fld. \<not> sublist fld block) [''Priority:'', ''Verify:'', ''Release:''])"
    unfolding search_modality_words contains_iff_sublist modality_finding_def meta_finding_def
      error_finding_def warning_finding_def .
next
  let ?ids = "id_lines lines"
  have "block_of lines ?ids index =
          join_lines (map (\<lambda>i. lines ! i)
            [fst (?ids ! index) - 1 ..<
             (if index + 1 < length ?ids then fst (?ids ! (index + 1)) - 1 else length lines)])"
    for index
  proof -
    have "(if index + 1 < length ?ids then fst (?ids ! (index + 1)) - 1 else length lines)
          \<le> length lines"
    proof (cases "index + 1 < length ?ids")
      case True
      then have "?ids ! (index + 1) \<in> set ?ids" by (rule nth_mem)
      then have "fst (?ids ! (index + 1)) \<le> length lines"
        using id_lines_line_range [of "fst (?ids ! (index + 1))" "snd (?ids ! (index + 1))" lines]
        by simp
      with True show ?thesis by simp
    next
      case False
      then show ?thesis by simp
    qed
    from slice_nth [OF this, of "fst (?ids ! index) - 1"] show ?thesis
      by (simp add: block_of_def Let_def)
  qed
  then show "check_blocks nm lines ?ids =
       concat (map (\<lambda>index.
           block_findings (snd (?ids ! index)) nm (fst (?ids ! index))
             (join_lines (map (\<lambda>i. lines ! i)
                [fst (?ids ! index) - 1 ..<
                 (if index + 1 < length ?ids
                  then fst (?ids ! (index + 1)) - 1 else length lines)])))
         [0..<length ?ids])"
    by (simp only: check_blocks_def)
next
  fix files fs p t
  assume h: "validate_requirements files = Inr fs \<and> p \<in> set files \<and> contents p = Some t"
  then have v: "validate_requirements files = Inr fs" and m: "p \<in> set files"
    and c: "contents p = Some t" by simp_all
  from validate_requirements_parts [OF v m] c
  show "set (check_blocks (name p) (splitlines t) (id_lines (splitlines t))) \<subseteq> set fs"
    by auto
qed

theorem block_modality_and_metadata_witness:
  "block_findings ''FR-003'' ''03-functional.md'' 7
     ''FR-003: The system shall log errors. Priority: High Verify: Test Release: 1.0'' = []
   \<and> block_findings ''NFR-050'' ''05-quality.md'' 12 ''NFR-050: fast''
     = [\<lparr>level = ''error'',
          message = ''NFR-050 in 05-quality.md:12 does not contain shall/should/may.''\<rparr>,
        \<lparr>level = ''warning'',
          message = ''NFR-050 in 05-quality.md:12 is missing '' @ [CHR 0x27] @ ''Priority:''
                      @ [CHR 0x27] @ ''.''\<rparr>,
        \<lparr>level = ''warning'',
          message = ''NFR-050 in 05-quality.md:12 is missing '' @ [CHR 0x27] @ ''Verify:''
                      @ [CHR 0x27] @ ''.''\<rparr>,
        \<lparr>level = ''warning'',
          message = ''NFR-050 in 05-quality.md:12 is missing '' @ [CHR 0x27] @ ''Release:''
                      @ [CHR 0x27] @ ''.''\<rparr>]
   \<and> block_findings ''FR-010'' ''03-functional.md'' 3
       ''FR-010: marshall maybe_ priority: x Verify: y Release: z''
     = [\<lparr>level = ''error'',
          message = ''FR-010 in 03-functional.md:3 does not contain shall/should/may.''\<rparr>,
        \<lparr>level = ''warning'',
          message = ''FR-010 in 03-functional.md:3 is missing '' @ [CHR 0x27] @ ''Priority:''
                      @ [CHR 0x27] @ ''.''\<rparr>]
   \<and> block_findings ''FR-011'' ''03-functional.md'' 4
       ''FR-011 SHOULD. Priority: Verify: Release:'' = []
   \<and> validate_requirements
       [\<lparr>name = ''03-functional.md'', is_file = Some True,
          contents = Some (''FR-001 May'' @ [LF] @ ''Priority: P'' @ [LF]
                           @ ''FR-002 x Verify: V'' @ [LF] @ ''Release: R'')\<rparr>]
     = Inr [\<lparr>level = ''warning'',
              message = ''FR-001 in 03-functional.md:1 is missing '' @ [CHR 0x27] @ ''Verify:''
                          @ [CHR 0x27] @ ''.''\<rparr>,
            \<lparr>level = ''warning'',
              message = ''FR-001 in 03-functional.md:1 is missing '' @ [CHR 0x27] @ ''Release:''
                          @ [CHR 0x27] @ ''.''\<rparr>,
            \<lparr>level = ''error'',
              message = ''FR-002 in 03-functional.md:3 does not contain shall/should/may.''\<rparr>,
            \<lparr>level = ''warning'',
              message = ''FR-002 in 03-functional.md:3 is missing '' @ [CHR 0x27] @ ''Priority:''
                          @ [CHR 0x27] @ ''.''\<rparr>]"
proof -
  note ev = regex_eval char_class_eval str_nat.simps
  have 1: "block_findings ''FR-003'' ''03-functional.md'' 7
     ''FR-003: The system shall log errors. Priority: High Verify: Test Release: 1.0'' = []"
    using block_modality_and_metadata [of "''FR-003''" "''03-functional.md''" 7
        "''FR-003: The system shall log errors. Priority: High Verify: Test Release: 1.0''",
        THEN conjunct1, folded search_modality_words contains_iff_sublist]
    by (simp add: ev)
  have 2: "block_findings ''NFR-050'' ''05-quality.md'' 12 ''NFR-050: fast''
     = [\<lparr>level = ''error'',
          message = ''NFR-050 in 05-quality.md:12 does not contain shall/should/may.''\<rparr>,
        \<lparr>level = ''warning'',
          message = ''NFR-050 in 05-quality.md:12 is missing '' @ [CHR 0x27] @ ''Priority:''
                      @ [CHR 0x27] @ ''.''\<rparr>,
        \<lparr>level = ''warning'',
          message = ''NFR-050 in 05-quality.md:12 is missing '' @ [CHR 0x27] @ ''Verify:''
                      @ [CHR 0x27] @ ''.''\<rparr>,
        \<lparr>level = ''warning'',
          message = ''NFR-050 in 05-quality.md:12 is missing '' @ [CHR 0x27] @ ''Release:''
                      @ [CHR 0x27] @ ''.''\<rparr>]"
    using block_modality_and_metadata [of "''NFR-050''" "''05-quality.md''" 12
        "''NFR-050: fast''",
        THEN conjunct1, folded search_modality_words contains_iff_sublist]
    by (simp add: ev)
  have 3: "block_findings ''FR-010'' ''03-functional.md'' 3
       ''FR-010: marshall maybe_ priority: x Verify: y Release: z''
     = [\<lparr>level = ''error'',
          message = ''FR-010 in 03-functional.md:3 does not contain shall/should/may.''\<rparr>,
        \<lparr>level = ''warning'',
          message = ''FR-010 in 03-functional.md:3 is missing '' @ [CHR 0x27] @ ''Priority:''
                      @ [CHR 0x27] @ ''.''\<rparr>]"
    using block_modality_and_metadata [of "''FR-010''" "''03-functional.md''" 3
        "''FR-010: marshall maybe_ priority: x Verify: y Release: z''",
        THEN conjunct1, folded search_modality_words contains_iff_sublist]
    by (simp add: ev)
  have 4: "block_findings ''FR-011'' ''03-functional.md'' 4
       ''FR-011 SHOULD. Priority: Verify: Release:'' = []"
    using block_modality_and_metadata [of "''FR-011''" "''03-functional.md''" 4
        "''FR-011 SHOULD. Priority: Verify: Release:''",
        THEN conjunct1, folded search_modality_words contains_iff_sublist]
    by (simp add: ev)
  have 5: "validate_requirements
       [\<lparr>name = ''03-functional.md'', is_file = Some True,
          contents = Some (''FR-001 May'' @ [LF] @ ''Priority: P'' @ [LF]
                           @ ''FR-002 x Verify: V'' @ [LF] @ ''Release: R'')\<rparr>]
     = Inr [\<lparr>level = ''warning'',
              message = ''FR-001 in 03-functional.md:1 is missing '' @ [CHR 0x27] @ ''Verify:''
                          @ [CHR 0x27] @ ''.''\<rparr>,
            \<lparr>level = ''warning'',
              message = ''FR-001 in 03-functional.md:1 is missing '' @ [CHR 0x27] @ ''Release:''
                          @ [CHR 0x27] @ ''.''\<rparr>,
            \<lparr>level = ''error'',
              message = ''FR-002 in 03-functional.md:3 does not contain shall/should/may.''\<rparr>,
            \<lparr>level = ''warning'',
              message = ''FR-002 in 03-functional.md:3 is missing '' @ [CHR 0x27] @ ''Priority:''
                          @ [CHR 0x27] @ ''.''\<rparr>]"
    by (simp add: validate_requirements_def requirements_of_file_def read_text_def
        startswith_def id_lines_def check_blocks_def block_of_def slice_def block_findings_def
        REQUIRED_META_FIELDS_def modality_finding_def meta_finding_def error_finding_def
        warning_finding_def check_occurrence_def CATEGORY_PREFIX_def enumerate_eq_zip
        splitlines_def Let_def ev)
  from 1 2 3 4 5 show ?thesis by (intro conjI)
qed

subsection \<open>Duplicate identifiers\<close>

text \<open>
  C4: when every file can be read, for an identifier that occurs at least once the
  requirements check has exactly one duplicate error for each occurrence after the
  first, in the order of the scan; its message names the file and line of that
  occurrence and then the file and line of the first occurrence; so there are as many
  as occurrences less one.
\<close>

theorem duplicates_name_first_occurrence:
  assumes "\<forall>p \<in> set files. contents p \<noteq> None"
    and "filter (\<lambda>(n, ln, r). r = req) (occurrences files) = (n0, l0, r0) # rest"
  shows "\<exists>fs. validate_requirements files = Inr fs
           \<and> filter (is_duplicate_error req) fs =
               map (\<lambda>(n, ln, r).
                      \<lparr>level = ''error'',
                       message = ''Duplicate requirement ID '' @ req @ '' in '' @ n @ '':''
                         @ str_nat ln @ ''; already defined at '' @ n0 @ '':'' @ str_nat l0
                         @ ''.''\<rparr>)
                 rest
           \<and> length (filter (is_duplicate_error req) fs) =
               length (filter (\<lambda>(n, ln, r). r = req) (occurrences files)) - 1"
proof -
  have "(n0, l0, r0) \<in> set (filter (\<lambda>(n, ln, r). r = req) (occurrences files))"
    unfolding assms(2) by simp
  then have "(n0, l0, req) \<in> set (occurrences files)" by auto
  then have v: "req_id_form req" by (rule occurrences_req_id_form)
  from requirements_of_files_total [OF assms(1), of Map.empty]
  obtain fs where f: "requirements_of_files files Map.empty = Inr fs" by blast
  from category_coverage_total [OF assms(1), of "[''02'', ''03'', ''04'', ''05'', ''06'']"]
  obtain cs where c: "category_coverage files [''02'', ''03'', ''04'', ''05'', ''06''] = Inr cs"
    and w: "\<forall>f \<in> set cs. level f = ''warning''" by blast
  from w have cw: "filter (is_duplicate_error req) cs = []"
    by (auto simp: filter_empty_conv is_duplicate_error_def)
  have "Map.empty req = None" by simp
  from requirements_of_files_unseen [OF v this f] assms(2)
  have "filter (is_duplicate_error req) fs =
             map (\<lambda>(n, ln, r). duplicate_finding req n ln n0 l0) rest" by simp
  then have d: "filter (is_duplicate_error req) fs =
               map (\<lambda>(n, ln, r).
                      \<lparr>level = ''error'',
                       message = ''Duplicate requirement ID '' @ req @ '' in '' @ n @ '':''
                         @ str_nat ln @ ''; already defined at '' @ n0 @ '':'' @ str_nat l0
                         @ ''.''\<rparr>)
                 rest"
    by (simp only: duplicate_finding_def error_finding_def)
  have r: "validate_requirements files = Inr (fs @ cs)"
    unfolding validate_requirements_def f c by (simp only: sum.case)
  have l: "length (filter (is_duplicate_error req) (fs @ cs)) =
             length (filter (\<lambda>(n, ln, r). r = req) (occurrences files)) - 1"
    unfolding assms(2) by (simp add: d cw)
  from r d cw l show ?thesis by simp
qed

lemma occurrences_example:
  "occurrences
     [\<lparr>name = ''03-a.md'', is_file = Some True,
        contents = Some (''x'' @ [LF, LF] @ ''FR-001 DR-002'' @ [LF] @ ''FR-001'')\<rparr>,
      \<lparr>name = ''03-b.md'', is_file = Some True,
        contents = Some ([LF, LF, LF, LF, LF, LF, LF, LF, LF, LF, LF] @ ''see FR-001.'')\<rparr>]
   = [(''03-a.md'', 3, ''FR-001''), (''03-a.md'', 3, ''DR-002''), (''03-a.md'', 4, ''FR-001''),
      (''03-b.md'', 12, ''FR-001'')]"
  by (simp add: occurrences_def id_lines_def splitlines_def enumerate_eq_zip
      regex_eval char_class_eval)

theorem duplicates_name_first_occurrence_witness:
  "\<exists>fs. validate_requirements
          [\<lparr>name = ''03-a.md'', is_file = Some True,
             contents = Some (''x'' @ [LF, LF] @ ''FR-001 DR-002'' @ [LF] @ ''FR-001'')\<rparr>,
           \<lparr>name = ''03-b.md'', is_file = Some True,
             contents = Some ([LF, LF, LF, LF, LF, LF, LF, LF, LF, LF, LF] @ ''see FR-001.'')\<rparr>]
         = Inr fs
      \<and> filter (is_duplicate_error ''FR-001'') fs =
          [\<lparr>level = ''error'',
             message = ''Duplicate requirement ID FR-001 in 03-a.md:4; already defined at 03-a.md:3.''\<rparr>,
           \<lparr>level = ''error'',
             message = ''Duplicate requirement ID FR-001 in 03-b.md:12; already defined at 03-a.md:3.''\<rparr>]"
proof -
  let ?files = "[\<lparr>name = ''03-a.md'', is_file = Some True,
             contents = Some (''x'' @ [LF, LF] @ ''FR-001 DR-002'' @ [LF] @ ''FR-001'')\<rparr>,
           \<lparr>name = ''03-b.md'', is_file = Some True,
             contents = Some ([LF, LF, LF, LF, LF, LF, LF, LF, LF, LF, LF] @ ''see FR-001.'')\<rparr>]"
  have r: "\<forall>p \<in> set ?files. contents p \<noteq> None" by simp
  have o: "filter (\<lambda>(n, ln, r). r = ''FR-001'') (occurrences ?files)
       = (''03-a.md'', 3, ''FR-001'') # [(''03-a.md'', 4, ''FR-001''), (''03-b.md'', 12, ''FR-001'')]"
    unfolding occurrences_example by simp
  from duplicates_name_first_occurrence [OF r o] show ?thesis
    by (auto simp: str_nat.simps)
qed

subsection \<open>The section prefix of every occurrence\<close>



subsection \<open>Several identifiers on one line\<close>

lemma nth_concat_offset:
  assumes "k < length xss" and "j < length (xss ! k)"
  shows "concat xss ! (length (concat (take k xss)) + j) = xss ! k ! j
         \<and> length (concat (take k xss)) + length (xss ! k) \<le> length (concat xss)"
  using assms
proof (induction xss arbitrary: k)
  case Nil
  then show ?case by simp
next
  case (Cons xs xss)
  show ?case
  proof (cases k)
    case 0
    with Cons.prems show ?thesis by (simp add: nth_append)
  next
    case (Suc k')
    with Cons.prems have "k' < length xss" and "j < length (xss ! k')" by simp_all
    from Cons.IH [OF this] Suc show ?thesis by (simp add: nth_append)
  qed
qed

lemma id_lines_index:
  assumes "k < length lines"
  shows "\<exists>off. off + length (finditer_req None (lines ! k)) \<le> length (id_lines lines)
               \<and> (\<forall>j < length (finditer_req None (lines ! k)).
                     id_lines lines ! (off + j) = (k + 1, finditer_req None (lines ! k) ! j))"
proof (cases "finditer_req None (lines ! k) = []")
  case True
  then show ?thesis by (intro exI [of _ 0]) simp
next
  case False
  let ?g = "\<lambda>(line_no, line). map (Pair line_no) (finditer_req None line)"
  let ?xss = "map ?g (enumerate 1 lines)"
  let ?off = "length (concat (take k ?xss))"
  have k: "k < length ?xss" using assms by simp
  have x: "?xss ! k = map (Pair (k + 1)) (finditer_req None (lines ! k))"
    using assms by (simp add: nth_enumerate_eq)
  have n: "id_lines lines ! (?off + j) = (k + 1, finditer_req None (lines ! k) ! j)"
    if "j < length (finditer_req None (lines ! k))" for j
  proof -
    from that x have "j < length (?xss ! k)" by simp
    from nth_concat_offset [OF k this] x that show ?thesis
      unfolding id_lines_def by simp
  qed
  from False x have "0 < length (?xss ! k)" by simp
  from nth_concat_offset [OF k this] x
  have "?off + length (finditer_req None (lines ! k)) \<le> length (id_lines lines)"
    unfolding id_lines_def by simp
  with n show ?thesis by blast
qed

lemma block_of_same_line:
  assumes "index + 1 < length ids" and "fst (ids ! (index + 1)) = fst (ids ! index)"
  shows "block_of lines ids index = []"
  using assms by (simp add: block_of_def slice_def)

lemma block_findings_empty_block:
  "block_findings req nm ln [] =
     [modality_finding req nm ln, meta_finding req nm ln ''Priority:'',
      meta_finding req nm ln ''Verify:'', meta_finding req nm ln ''Release:'']"
  by (simp add: block_findings_def REQUIRED_META_FIELDS_def match_words_def word_boundary_def
      is_word_opt_def head_opt_def)

text \<open>
  C10: on a line with two or more identifiers, every identifier but the last has an
  empty block (the next entry of \<^verbatim>\<open>id_lines\<close> is on the same line, so the slice starts
  and stops at the same index); its block gives the modality error and the three
  metadata warnings whatever the line contains, and the result of the requirements
  check holds them.
\<close>

theorem same_line_blocks_are_empty:
  assumes "validate_requirements files = Inr fs" and "p \<in> set files"
    and "contents p = Some t" and "k < length (splitlines t)"
    and "j + 1 < length (finditer_req None (splitlines t ! k))"
    and "req = finditer_req None (splitlines t ! k) ! j"
  shows "(\<exists>index. index + 1 < length (id_lines (splitlines t))
            \<and> id_lines (splitlines t) ! index = (k + 1, req)
            \<and> fst (id_lines (splitlines t) ! (index + 1)) = k + 1
            \<and> block_of (splitlines t) (id_lines (splitlines t)) index = []
            \<and> block_findings req (name p) (k + 1)
                 (block_of (splitlines t) (id_lines (splitlines t)) index)
               = [modality_finding req (name p) (k + 1),
                  meta_finding req (name p) (k + 1) ''Priority:'',
                  meta_finding req (name p) (k + 1) ''Verify:'',
                  meta_finding req (name p) (k + 1) ''Release:''])
         \<and> set [modality_finding req (name p) (k + 1),
                 meta_finding req (name p) (k + 1) ''Priority:'',
                 meta_finding req (name p) (k + 1) ''Verify:'',
                 meta_finding req (name p) (k + 1) ''Release:''] \<subseteq> set fs"
proof -
  let ?lines = "splitlines t"
  let ?ids = "id_lines ?lines"
  let ?ms = "finditer_req None (?lines ! k)"
  let ?four = "[modality_finding req (name p) (k + 1),
                 meta_finding req (name p) (k + 1) ''Priority:'',
                 meta_finding req (name p) (k + 1) ''Verify:'',
                 meta_finding req (name p) (k + 1) ''Release:'']"
  from id_lines_index [OF assms(4)] obtain off where l: "off + length ?ms \<le> length ?ids"
    and n: "\<forall>j < length ?ms. ?ids ! (off + j) = (k + 1, ?ms ! j)"
    by blast
  from assms(5) l have i1: "(off + j) + 1 < length ?ids" by simp
  from n assms(5) assms(6) have a: "?ids ! (off + j) = (k + 1, req)" by simp
  from n assms(5) have "?ids ! (off + (j + 1)) = (k + 1, ?ms ! (j + 1))" by blast
  then have b: "fst (?ids ! ((off + j) + 1)) = k + 1" by (simp add: add.assoc)
  from a b have "fst (?ids ! ((off + j) + 1)) = fst (?ids ! (off + j))" by simp
  from block_of_same_line [OF i1 this] have e: "block_of ?lines ?ids (off + j) = []" .
  have f: "block_findings req (name p) (k + 1) (block_of ?lines ?ids (off + j)) = ?four"
    unfolding e by (rule block_findings_empty_block)
  from validate_requirements_parts [OF assms(1) assms(2)] assms(3)
  have sub: "set (check_blocks (name p) ?lines ?ids) \<subseteq> set fs" by auto
  from i1 have "off + j \<in> set [0..<length ?ids]" by simp
  then have "set (block_findings (snd (?ids ! (off + j))) (name p) (fst (?ids ! (off + j)))
                   (block_of ?lines ?ids (off + j)))
               \<subseteq> set (check_blocks (name p) ?lines ?ids)"
    unfolding check_blocks_def set_concat by (intro Union_upper) (simp del: upt_Suc)
  with a f sub have m: "set ?four \<subseteq> set fs" by auto
  from i1 a b e f have "\<exists>index. index + 1 < length ?ids
            \<and> ?ids ! index = (k + 1, req)
            \<and> fst (?ids ! (index + 1)) = k + 1
            \<and> block_of ?lines ?ids index = []
            \<and> block_findings req (name p) (k + 1) (block_of ?lines ?ids index) = ?four"
    by blast
  with m show ?thesis by blast
qed

theorem same_line_blocks_are_empty_witness:
  "\<exists>fs. validate_requirements
          [\<lparr>name = ''03-functional.md'', is_file = Some True,
             contents = Some ''FR-001 FR-002 shall Priority: Verify: Release:''\<rparr>] = Inr fs
      \<and> set [modality_finding ''FR-001'' ''03-functional.md'' 1,
               meta_finding ''FR-001'' ''03-functional.md'' 1 ''Priority:'',
               meta_finding ''FR-001'' ''03-functional.md'' 1 ''Verify:'',
               meta_finding ''FR-001'' ''03-functional.md'' 1 ''Release:''] \<subseteq> set fs"
proof -
  let ?t = "''FR-001 FR-002 shall Priority: Verify: Release:''"
  let ?p = "\<lparr>name = ''03-functional.md'', is_file = Some True, contents = Some ?t\<rparr>"
  have "\<forall>p \<in> set [?p]. contents p \<noteq> None" by simp
  from validate_requirements_total [OF this] obtain fs where
    v: "validate_requirements [?p] = Inr fs" by blast
  have s: "splitlines ?t = [?t]"
    by (simp add: splitlines_def char_class_eval)
  have m: "finditer_req None ?t = [''FR-001'', ''FR-002'']"
    by (simp add: regex_eval char_class_eval)
  have 1: "?p \<in> set [?p]" and 2: "contents ?p = Some ?t" by simp_all
  have 3: "0 < length (splitlines ?t)" unfolding s by simp
  have 4: "0 + 1 < length (finditer_req None (splitlines ?t ! 0))" unfolding s nth_Cons_0 m by simp
  have 5: "''FR-001'' = finditer_req None (splitlines ?t ! 0) ! 0" unfolding s nth_Cons_0 m by simp
  from same_line_blocks_are_empty [OF v 1 2 3 4 5, THEN conjunct2] v show ?thesis
    by (intro exI [of _ fs]) simp
qed

subsection \<open>Runs that complete and runs that abort\<close>

lemma validate_line_limits_unreadable:
  assumes "\<forall>q \<in> set before. contents q \<noteq> None" and "contents p = None"
  shows "validate_line_limits (before @ p # after) max_lines = Inl (ReadError (name p))"
  using assms by (induction before) (auto simp: read_text_def)

lemma validate_definitions_total:
  assumes "\<forall>p \<in> set files. contents p \<noteq> None"
  shows "\<exists>fs. validate_definitions files = Inr fs"
proof (cases "find (\<lambda>p. startswith (name p) ''00'') files")
  case None
  then show ?thesis by (simp add: validate_definitions_def)
next
  case (Some intro)
  then have "intro \<in> set files" by (auto simp: find_Some_iff)
  with assms obtain t where "contents intro = Some t" by auto
  with Some show ?thesis by (simp add: validate_definitions_def read_text_def)
qed

lemma validate_change_control_total:
  assumes "\<forall>p \<in> set files. contents p \<noteq> None"
  shows "\<exists>fs. validate_change_control files = Inr fs"
proof (cases "find (\<lambda>p. startswith (name p) ''07'') files")
  case None
  then show ?thesis by (simp add: validate_change_control_def)
next
  case (Some change_file)
  then have "change_file \<in> set files" by (auto simp: find_Some_iff)
  with assms obtain t where "contents change_file = Some t" by auto
  with Some show ?thesis by (simp add: validate_change_control_def read_text_def)
qed

lemma rtm_headers_total:
  "\<forall>p \<in> set files. contents p \<noteq> None \<Longrightarrow> \<exists>fs. rtm_headers files = Inr fs"
  by (induction files) (auto simp: read_text_def)

lemma validate_rtm_total:
  assumes "\<forall>p \<in> set files. contents p \<noteq> None"
  shows "\<exists>fs. validate_rtm files = Inr fs"
  unfolding validate_rtm_def using assms by (intro rtm_headers_total) simp

lemma collect_findings_total:
  assumes "\<forall>p \<in> set files. contents p \<noteq> None"
  shows "\<exists>fs. collect_findings files max_lines = Inr fs"
proof -
  from validate_line_limits_readable [OF assms, of max_lines]
  obtain f2 where 2: "validate_line_limits files max_lines = Inr f2" by blast
  from validate_definitions_total [OF assms]
  obtain f3 where 3: "validate_definitions files = Inr f3" by blast
  from validate_change_control_total [OF assms]
  obtain f4 where 4: "validate_change_control files = Inr f4" by blast
  from validate_rtm_total [OF assms]
  obtain f5 where 5: "validate_rtm files = Inr f5" by blast
  from validate_requirements_total [OF assms]
  obtain f6 where 6: "validate_requirements files = Inr f6" by blast
  show ?thesis unfolding collect_findings_def 2 3 4 5 6 by (simp add: Let_def)
qed

lemma collect_findings_unreadable:
  assumes "\<forall>q \<in> set before. contents q \<noteq> None" and "contents p = None"
  shows "collect_findings (before @ p # after) max_lines = Inl (ReadError (name p))"
  unfolding collect_findings_def validate_line_limits_unreadable [OF assms]
  by (simp add: Let_def)

subsection \<open>The checks on the example directories\<close>

lemma load_demo_dir: "load_markdown_files demo_dir = Inr demo_files"
  by (simp add: load_markdown_files_def path_suffix_def char_class_eval)

lemma load_broken_dir:
  "load_markdown_files broken_dir
   = Inr [\<lparr>name = ''00-intro.md'', is_file = Some True, contents = Some ''SRS''\<rparr>,
          \<lparr>name = ''01-product.md'', is_file = Some True, contents = None\<rparr>]"
  by (simp add: load_markdown_files_def path_suffix_def char_class_eval)

lemma load_unread_dir: "load_markdown_files unread_dir = Inr unread_files"
  by (simp add: load_markdown_files_def path_suffix_def char_class_eval)

lemma demo_required_sections: "validate_required_sections demo_files = []"
  by (simp add: validate_required_sections_def REQUIRED_SECTIONS_def startswith_def)

lemma demo_line_limits: "validate_line_limits demo_files 150 = Inr []"
  by (simp add: read_text_def line_limit_findings_def startswith_def
      splitlines_def char_class_eval)

lemma demo_definitions: "validate_definitions demo_files = Inr []"
  by (simp add: validate_definitions_def read_text_def startswith_def
      REQUIRED_DEFINITIONS_def regex_eval char_class_eval)

lemma demo_change_control: "validate_change_control demo_files = Inr []"
  by (simp add: validate_change_control_def read_text_def startswith_def
      regex_eval char_class_eval)

lemma demo_rtm: "validate_rtm demo_files = Inr []"
  by (simp add: validate_rtm_def startswith_def char_class_eval)

lemma demo_requirements:
  "validate_requirements demo_files = Inr
     [warning_finding ''Section 02 has no requirement IDs detected.'',
      warning_finding ''Section 03 has no requirement IDs detected.'',
      warning_finding ''Section 04 has no requirement IDs detected.'',
      warning_finding ''Section 05 has no requirement IDs detected.'',
      warning_finding ''Section 06 has no requirement IDs detected.'']"
  by (simp add: validate_requirements_def requirements_of_file_def read_text_def
      startswith_def id_lines_def check_blocks_def enumerate_eq_zip splitlines_def
      regex_eval char_class_eval)

lemma demo_collect_findings:
  "collect_findings demo_files 150 = Inr
     [warning_finding ''Section 02 has no requirement IDs detected.'',
      warning_finding ''Section 03 has no requirement IDs detected.'',
      warning_finding ''Section 04 has no requirement IDs detected.'',
      warning_finding ''Section 05 has no requirement IDs detected.'',
      warning_finding ''Section 06 has no requirement IDs detected.'']"
  unfolding collect_findings_def demo_required_sections demo_line_limits
    demo_definitions demo_change_control demo_rtm demo_requirements
  by (simp add: Let_def)

subsection \<open>A file that cannot be read\<close>

text \<open>
  C1, as the code has it: no check catches a failed read. When the listing succeeds and
  a markdown file cannot be read, the run aborts with the read error of the first such
  file in sorted order: no report is printed, nothing is surfaced as a finding, and the
  process ends with status 1.
\<close>

theorem unreadable_file_aborts_run:
  "dir_exists d = Some True \<and> dir_is_dir d = Some True
     \<and> load_markdown_files d = Inr (before @ p # after)
     \<and> (\<forall>q \<in> set before. contents q \<noteq> None) \<and> contents p = None
   \<longrightarrow> main d max_lines = Inl (ReadError (name p)) \<and> exit_status (main d max_lines) = 1"
proof
  assume a: "dir_exists d = Some True \<and> dir_is_dir d = Some True
     \<and> load_markdown_files d = Inr (before @ p # after)
     \<and> (\<forall>q \<in> set before. contents q \<noteq> None) \<and> contents p = None"
  then have "collect_findings (before @ p # after) max_lines = Inl (ReadError (name p))"
    by (simp add: collect_findings_unreadable)
  with a have "main d max_lines = Inl (ReadError (name p))"
    by (simp add: main_def)
  then show "main d max_lines = Inl (ReadError (name p)) \<and> exit_status (main d max_lines) = 1"
    by (simp add: exit_status_def)
qed

theorem unreadable_file_aborts_run_counterexample:
  "main broken_dir 150 = Inl (ReadError ''01-product.md'')"
  by (simp add: main_def load_broken_dir collect_findings_def read_text_def Let_def)

theorem unreadable_file_aborts_run_witness:
  "main \<lparr>dir_str = ''specs/one'', dir_exists = Some True, dir_is_dir = Some True,
          iterdir = Some [\<lparr>name = ''03-functional.md'', is_file = Some True, contents = None\<rparr>]\<rparr> 150
     = Inl (ReadError ''03-functional.md'')
   \<and> exit_status
        (main \<lparr>dir_str = ''specs/one'', dir_exists = Some True, dir_is_dir = Some True,
           iterdir = Some [\<lparr>name = ''03-functional.md'', is_file = Some True, contents = None\<rparr>]\<rparr>
           150) = 1"
proof -
  let ?p = "\<lparr>name = ''03-functional.md'', is_file = Some True, contents = None\<rparr>"
  let ?d = "\<lparr>dir_str = ''specs/one'', dir_exists = Some True, dir_is_dir = Some True,
             iterdir = Some [?p]\<rparr>"
  have l: "load_markdown_files ?d = Inr ([] @ ?p # [])"
    by (simp add: load_markdown_files_def path_suffix_def char_class_eval)
  have h: "dir_exists ?d = Some True \<and> dir_is_dir ?d = Some True
      \<and> load_markdown_files ?d = Inr ([] @ ?p # [])
      \<and> (\<forall>q \<in> set []. contents q \<noteq> None) \<and> contents ?p = None"
    using l by simp
  show ?thesis
    using unreadable_file_aborts_run [of ?d "[]" ?p "[]" 150, THEN mp, OF h]
    by (simp add: exit_status_def)
qed

subsection \<open>The report\<close>

text \<open>
  C2, as the code has it: a run that reaches the checks and completes them prints, when
  there is an error, the failure banner, every error line and every warning line, and
  no count of files; otherwise the success banner, every warning line and the count of
  files checked.
\<close>

theorem report_layout:
  assumes "dir_exists d = Some True" and "dir_is_dir d = Some True"
    and "load_markdown_files d = Inr files" and "files \<noteq> []"
    and "collect_findings files max_lines = Inr findings"
  shows "main d max_lines =
     (if \<exists>f \<in> set findings. level f = ''error''
      then Inr ([''SRS validation failed.'']
                @ map (\<lambda>f. ''ERROR: '' @ message f) (filter (\<lambda>f. level f = ''error'') findings)
                @ map (\<lambda>f. ''WARN: '' @ message f) (filter (\<lambda>f. level f = ''warning'') findings),
                1)
      else Inr ([''SRS validation passed.'']
                @ map (\<lambda>f. ''WARN: '' @ message f) (filter (\<lambda>f. level f = ''warning'') findings)
                @ [''Checked '' @ str_nat (length files)
                     @ '' markdown files in '' @ dir_str d @ ''.''],
                0))"
  using assms by (simp add: main_def Let_def filter_empty_conv)

theorem report_layout_counterexample:
  "main \<lparr>dir_str = ''specs/notes'', dir_exists = Some True, dir_is_dir = Some True,
          iterdir = Some [\<lparr>name = ''notes.md'', is_file = Some True, contents = Some []\<rparr>]\<rparr> 150
   = Inr ([''SRS validation failed.'',
           ''ERROR: Missing section 00 (Introduction).'',
           ''ERROR: Missing section 01 (Product perspective).'',
           ''ERROR: Missing section 02 (External interfaces).'',
           ''ERROR: Missing section 03 (Functional requirements).'',
           ''ERROR: Missing section 04 (Data requirements).'',
           ''ERROR: Missing section 05 (Non-functional requirements).'',
           ''ERROR: Missing section 06 (Constraints).'',
           ''ERROR: Missing section 07 (Change control).''], 1)"
  by (simp add: main_def load_markdown_files_def path_suffix_def collect_findings_def
      validate_required_sections_def REQUIRED_SECTIONS_def validate_definitions_def
      validate_change_control_def validate_rtm_def validate_requirements_def
      requirements_of_file_def read_text_def line_limit_findings_def startswith_def
      id_lines_def check_blocks_def splitlines_def error_finding_def Let_def char_class_eval)

theorem report_layout_witness:
  "main demo_dir 150
   = Inr ([''SRS validation passed.'',
           ''WARN: Section 02 has no requirement IDs detected.'',
           ''WARN: Section 03 has no requirement IDs detected.'',
           ''WARN: Section 04 has no requirement IDs detected.'',
           ''WARN: Section 05 has no requirement IDs detected.'',
           ''WARN: Section 06 has no requirement IDs detected.'',
           ''Checked 8 markdown files in specs/demo.''], 0)"
proof -
  have 1: "dir_exists demo_dir = Some True" and 2: "dir_is_dir demo_dir = Some True"
    by simp_all
  have 3: "demo_files \<noteq> []" by simp
  show ?thesis
    unfolding report_layout [OF 1 2 load_demo_dir 3 demo_collect_findings]
    by (simp add: warning_finding_def str_nat.simps)
qed

subsection \<open>The exit status\<close>

text \<open>
  C3, as the code has it, for a run whose command line parses: the process ends with
  status 0 exactly when the directory exists, is a directory, holds a markdown file,
  no call raises and the checks end without an error finding; with status 1 exactly
  when the directory does not exist, is not a directory, holds no markdown file, the
  checks end with an error finding, or an exception aborts the run; with no other
  status; and findings that are all warnings leave the status at 0. The run is aborted
  exactly when a query of the file system or a read raises.
\<close>

theorem exit_status_of_run:
  "(exit_status (main d max_lines) = 0 \<longleftrightarrow>
      dir_exists d = Some True \<and> dir_is_dir d = Some True
      \<and> (\<exists>files fs. load_markdown_files d = Inr files \<and> files \<noteq> []
            \<and> collect_findings files max_lines = Inr fs
            \<and> (\<forall>f \<in> set fs. level f \<noteq> ''error'')))
   \<and> (exit_status (main d max_lines) = 1 \<longleftrightarrow>
      dir_exists d = Some False
      \<or> (dir_exists d = Some True \<and> dir_is_dir d = Some False)
      \<or> (dir_exists d = Some True \<and> dir_is_dir d = Some True
          \<and> load_markdown_files d = Inr [])
      \<or> (dir_exists d = Some True \<and> dir_is_dir d = Some True
          \<and> (\<exists>files fs. load_markdown_files d = Inr files \<and> files \<noteq> []
                \<and> collect_findings files max_lines = Inr fs
                \<and> (\<exists>f \<in> set fs. level f = ''error'')))
      \<or> (\<exists>e. main d max_lines = Inl e))
   \<and> (exit_status (main d max_lines) = 0 \<or> exit_status (main d max_lines) = 1)
   \<and> (\<forall>files fs. dir_exists d = Some True \<and> dir_is_dir d = Some True
         \<and> load_markdown_files d = Inr files \<and> files \<noteq> []
         \<and> collect_findings files max_lines = Inr fs
         \<and> (\<forall>f \<in> set fs. level f = ''warning'')
       \<longrightarrow> exit_status (main d max_lines) = 0)
   \<and> ((\<exists>e. main d max_lines = Inl e) \<longleftrightarrow>
      dir_exists d = None
      \<or> (dir_exists d = Some True \<and> dir_is_dir d = None)
      \<or> (dir_exists d = Some True \<and> dir_is_dir d = Some True
          \<and> (\<exists>e. load_markdown_files d = Inl e))
      \<or> (dir_exists d = Some True \<and> dir_is_dir d = Some True
          \<and> (\<exists>files e. load_markdown_files d = Inr files \<and> files \<noteq> []
                \<and> collect_findings files max_lines = Inl e)))"
proof (cases "dir_exists d")
  case None
  then show ?thesis by (simp add: main_def exit_status_def)
next
  case (Some ex)
  note ex = Some
  show ?thesis
  proof (cases ex)
    case False
    with ex show ?thesis by (simp add: main_def exit_status_def)
  next
    case True
    note ext = True
    show ?thesis
    proof (cases "dir_is_dir d")
      case None
      with ex ext show ?thesis by (simp add: main_def exit_status_def)
    next
      case (Some isd)
      note isd = Some
      show ?thesis
      proof (cases isd)
        case False
        with ex ext isd show ?thesis by (simp add: main_def exit_status_def)
      next
        case True
        note isdt = True
        show ?thesis
        proof (cases "load_markdown_files d")
          case (Inl e)
          with ex ext isd isdt show ?thesis by (simp add: main_def exit_status_def)
        next
          case (Inr files)
          note files = Inr
          show ?thesis
          proof (cases "files = []")
            case True
            with ex ext isd isdt files show ?thesis by (simp add: main_def exit_status_def)
          next
            case False
            note ne = False
            show ?thesis
            proof (cases "collect_findings files max_lines")
              case (Inl e)
              with ex ext isd isdt files ne show ?thesis
                by (simp add: main_def exit_status_def)
            next
              case (Inr fs)
              with ex ext isd isdt files ne show ?thesis
                by (auto simp: main_def exit_status_def Let_def filter_empty_conv)
            qed
          qed
        qed
      qed
    qed
  qed
qed

theorem exit_status_of_run_counterexample:
  "exit_status (main unread_dir 150) = 1
   \<and> dir_exists unread_dir = Some True \<and> dir_is_dir unread_dir = Some True
   \<and> load_markdown_files unread_dir = Inr unread_files
   \<and> validate_required_sections unread_files = []
   \<and> validate_line_limits unread_files 150 = Inl (ReadError ''01-product.md'')"
proof -
  have s: "validate_required_sections unread_files = []"
    by (simp add: validate_required_sections_def REQUIRED_SECTIONS_def startswith_def)
  have l: "validate_line_limits unread_files 150 = Inl (ReadError ''01-product.md'')"
    by (simp add: read_text_def)
  have "main unread_dir 150 = Inl (ReadError ''01-product.md'')"
    by (simp add: main_def load_unread_dir collect_findings_def s l del: validate_line_limits.simps)
  then have "exit_status (main unread_dir 150) = 1" by (simp add: exit_status_def)
  with s l load_unread_dir show ?thesis by simp
qed

theorem exit_status_of_run_witness:
  "exit_status (main demo_dir 150) = 0
   \<and> exit_status (main \<lparr>dir_str = ''specs/none'', dir_exists = Some False,
                          dir_is_dir = Some False, iterdir = Some []\<rparr> 150) = 1"
proof -
  let ?fs = "[warning_finding ''Section 02 has no requirement IDs detected.'',
      warning_finding ''Section 03 has no requirement IDs detected.'',
      warning_finding ''Section 04 has no requirement IDs detected.'',
      warning_finding ''Section 05 has no requirement IDs detected.'',
      warning_finding ''Section 06 has no requirement IDs detected.'']"
  let ?none = "\<lparr>dir_str = ''specs/none'', dir_exists = Some False, dir_is_dir = Some False,
                iterdir = Some []\<rparr>"
  have w: "\<forall>f \<in> set ?fs. level f = ''warning''" by (simp add: warning_finding_def)
  have h: "dir_exists demo_dir = Some True \<and> dir_is_dir demo_dir = Some True
         \<and> load_markdown_files demo_dir = Inr demo_files \<and> demo_files \<noteq> []
         \<and> collect_findings demo_files 150 = Inr ?fs
         \<and> (\<forall>f \<in> set ?fs. level f = ''warning'')"
    using w load_demo_dir demo_collect_findings by simp
  have 1: "exit_status (main demo_dir 150) = 0"
    using exit_status_of_run [of demo_dir 150, THEN conjunct2, THEN conjunct2, THEN conjunct2,
        THEN conjunct1, THEN spec, THEN spec, THEN mp, OF h] .
  have "dir_exists ?none = Some False" by simp
  then have 2: "exit_status (main ?none 150) = 1"
    using exit_status_of_run [of ?none 150, THEN conjunct2, THEN conjunct1] by blast
  from 1 2 show ?thesis by (rule conjI)
qed

subsection \<open>Determinism\<close>

lemma filter_same_key:
  assumes "distinct (map f xs)" and "k \<in> set xs"
  shows "filter (\<lambda>x. f k = f x) xs = [k]"
  using assms
proof (induction xs)
  case Nil
  then show ?case by simp
next
  case (Cons x xs)
  show ?case
  proof (cases "k = x")
    case True
    with Cons.prems(1) have "filter (\<lambda>y. f k = f y) xs = []"
      by (auto simp: filter_empty_conv)
    with True show ?thesis by simp
  next
    case False
    with Cons.prems(2) have kx: "k \<in> set xs" by simp
    from Cons.prems(1) have "f x \<notin> f ` set xs" and d: "distinct (map f xs)" by simp_all
    with kx have "f k \<noteq> f x" by (metis imageI)
    with Cons.IH [OF d kx] show ?thesis by simp
  qed
qed

lemma sort_key_permutation:
  assumes "mset xs = mset ys" and "distinct (map f xs)"
  shows "sort_key f xs = sort_key f ys"
proof (rule properties_for_sort_key)
  show "mset (sort_key f ys) = mset xs" using assms(1) by simp
  show "sorted (map f (sort_key f ys))" by simp
  fix k assume "k \<in> set (sort_key f ys)"
  then have ky: "k \<in> set ys" by simp
  with assms(1) have kx: "k \<in> set xs" by (metis mset_eq_setD)
  from assms have "mset (map f xs) = mset (map f ys)" by simp
  with assms(2) have dy: "distinct (map f ys)" by (metis mset_eq_imp_distinct_iff)
  have "mset (map f (sort_key f ys)) = mset (map f ys)" by simp
  with dy have ds: "distinct (map f (sort_key f ys))" by (metis mset_eq_imp_distinct_iff)
  from ky have ks: "k \<in> set (sort_key f ys)" by simp
  from filter_same_key [OF ds ks] filter_same_key [OF assms(2) kx]
  show "filter (\<lambda>x. f k = f x) (sort_key f ys) = filter (\<lambda>x. f k = f x) xs" by simp
qed

lemma select_markdown_eq:
  "select_markdown es =
     (if \<exists>p \<in> set es. is_file p = None then Inl OSError
      else Inr (filter (\<lambda>p. is_file p = Some True \<and> lower (path_suffix (name p)) = ''.md'') es))"
  by (induction es) (auto split: option.splits)

lemma load_markdown_files_permutation:
  assumes "map_option mset (iterdir d1) = map_option mset (iterdir d2)"
    and "\<forall>es. iterdir d1 = Some es \<longrightarrow> distinct (map name es)"
  shows "load_markdown_files d1 = load_markdown_files d2"
proof (cases "iterdir d1")
  case None
  with assms(1) have "iterdir d2 = None" by (cases "iterdir d2") simp_all
  with None show ?thesis by (simp add: load_markdown_files_def)
next
  case (Some es1)
  with assms(1) obtain es2 where 2: "iterdir d2 = Some es2" and m: "mset es1 = mset es2"
    by (cases "iterdir d2") simp_all
  from assms(2) Some have d: "distinct (map name es1)" by simp
  let ?P = "\<lambda>p. is_file p = Some True \<and> lower (path_suffix (name p)) = ''.md''"
  from m have s: "set es1 = set es2" by (rule mset_eq_setD)
  from m have "mset (filter ?P es1) = mset (filter ?P es2)" by (metis mset_filter)
  moreover from d have "distinct (map name (filter ?P es1))" by (rule distinct_map_filter)
  ultimately have "sort_key name (filter ?P es1) = sort_key name (filter ?P es2)"
    by (rule sort_key_permutation)
  with s Some 2 show ?thesis
    by (simp add: load_markdown_files_def select_markdown_eq)
qed

text \<open>
  C9: the report and the status are a function of the directory's entries and of the
  maximum alone: two runs on directories with the same entries (names and texts),
  listed by \<^verbatim>\<open>iterdir\<close> in any two orders, give the same result.
\<close>

theorem report_independent_of_listing_order:
  assumes "map_option mset (iterdir d1) = map_option mset (iterdir d2)"
    and "\<forall>es. iterdir d1 = Some es \<longrightarrow> distinct (map name es)"
    and "dir_str d1 = dir_str d2" and "dir_exists d1 = dir_exists d2"
    and "dir_is_dir d1 = dir_is_dir d2"
  shows "main d1 max_lines = main d2 max_lines"
  unfolding main_def load_markdown_files_permutation [OF assms(1) assms(2)] assms(3-5) ..

theorem report_independent_of_listing_order_witness:
  "main demo_dir 150 = main (demo_dir\<lparr>iterdir := map_option rev (iterdir demo_dir)\<rparr>) 150"
proof -
  let ?d2 = "demo_dir\<lparr>iterdir := map_option rev (iterdir demo_dir)\<rparr>"
  have 1: "map_option mset (iterdir demo_dir) = map_option mset (iterdir ?d2)"
    by (simp only: spec_dir.simps option.map mset_rev)
  have 2: "\<forall>es. iterdir demo_dir = Some es \<longrightarrow> distinct (map name es)" by auto
  have 3: "dir_str demo_dir = dir_str ?d2" by simp
  have 4: "dir_exists demo_dir = dir_exists ?d2" by simp
  have 5: "dir_is_dir demo_dir = dir_is_dir ?d2" by simp
  show ?thesis by (rule report_independent_of_listing_order [OF 1 2 3 4 5])
qed

end
